theory Spec2Isabelle
  imports Complex_Main
begin

section \<open>The content script: tiled full-page capture\<close>

text \<open>
  The content script holds a \<open>ContentScriptController\<close> with three private fields:
  \<open>isCapturing\<close>, \<open>canvas\<close> and \<open>ctx\<close>. Its method \<open>captureFullPage\<close> reads the
  page's box metrics, scrolls the window, asks the extension runtime for one image per
  viewport tile and draws each on the canvas.
\<close>

subsection \<open>Numbers\<close>

text \<open>
  \<open>Math.ceil(pageHeight / viewportHeight)\<close> is a division of two non-negative integers
  in JavaScript numbers: a zero divisor gives \<open>Infinity\<close>, or \<open>NaN\<close> for \<open>0 / 0\<close>, and
  \<open>Math.ceil\<close> keeps both. The loop test \<open>row < rows\<close> is always true against
  \<open>Infinity\<close> and always false against \<open>NaN\<close>.
\<close>

datatype js_number = Finite nat | Infinity | NaN

definition ceil_div :: "nat \<Rightarrow> nat \<Rightarrow> js_number" where
  "ceil_div a b =
     (if b = 0 then (if a = 0 then NaN else Infinity)
      else Finite (nat \<lceil>real a / real b\<rceil>))"

fun js_less :: "nat \<Rightarrow> js_number \<Rightarrow> bool" where
  "js_less i (Finite n) = (i < n)"
| "js_less i Infinity = True"
| "js_less i NaN = False"

subsection \<open>Data\<close>

text \<open>
  An error is a JavaScript \<open>Error\<close> with a message. The messages that the content
  script writes itself are constructors; \<open>Message m\<close> is an error whose message \<open>m\<close>
  came from outside (\<open>chrome.runtime.lastError.message\<close> or \<open>response.error\<close>).
\<close>

datatype error =
    AlreadyInProgress      \<comment> \<open>line 43, thrown when \<open>isCapturing\<close> is set\<close>
  | NoCanvasContext        \<comment> \<open>line 76, \<open>getContext('2d')\<close> gave null\<close>
  | TileCaptureFailed      \<comment> \<open>line 134, the default message of a failed tile\<close>
  | ContextUnavailable     \<comment> \<open>line 148, \<open>ctx\<close> is null when the image has loaded\<close>
  | ImageLoadFailed        \<comment> \<open>line 151, \<open>img.onerror\<close>\<close>
  | TypeError              \<comment> \<open>a method call on null\<close>
  | Message string

text \<open>The canvas element: its size and what has been drawn on it, oldest first.\<close>

record canvas_el =
  width :: nat
  height :: nat
  drawn :: "(string \<times> nat \<times> nat) list"

text \<open>What \<open>canvas.toDataURL(type, quality)\<close> encodes: the canvas as it is at that moment.\<close>

record encoded_image =
  mime :: string
  quality :: rat
  surface :: canvas_el

record CaptureOptions =
  opt_quality :: "rat option"
  opt_format :: "string option"

text \<open>The calls that a session makes on the page and the runtime, in order.\<close>

datatype event =
    ScrollTo nat nat
  | Wait nat
  | CaptureVisibleTab
  | DrawImage string nat nat

text \<open>
  The state that \<open>captureFullPage\<close> reads and writes: the controller's three fields,
  the window's scroll position, the calls made so far and the number of
  \<open>captureVisibleTab\<close> requests sent so far. Extents and offsets are whole numbers of
  pixels, far below \<open>2^53\<close>, so the products \<open>col * viewportWidth\<close> and
  \<open>row * viewportHeight\<close> are exact in JavaScript numbers.

  \<open>captureFullPage\<close> is an \<open>async\<close> method: at each \<open>await\<close> it is suspended and other
  handlers of the same controller may run, a second \<open>captureFullPage\<close> among them,
  which would find the controller as the first left it. \<open>busy_at_await\<close> keeps, for each
  \<open>await\<close> so far and in order, the value that \<open>isCapturing\<close> had during that
  suspension.
\<close>

record state =
  isCapturing :: bool
  canvas :: "canvas_el option"
  ctx :: bool
  scrollX :: nat
  scrollY :: nat
  calls :: "event list"
  requests :: nat
  busy_at_await :: "bool list"

text \<open>
  The reply of the runtime to a \<open>captureVisibleTab\<close> message: either
  \<open>chrome.runtime.lastError\<close> is set, or there is a response object
  \<open>{success, dataUrl, error}\<close>.
\<close>

datatype reply =
    LastError string
  | Response bool string "string option"

text \<open>
  What one run reads from its surroundings: the ten box metrics, the viewport, whether
  \<open>getContext('2d')\<close> gives a context, the reply to the \<open>n\<close>-th tile request, and
  whether an image with a given data URL loads (\<open>onload\<close>) or not (\<open>onerror\<close>).
\<close>

record env =
  body_scrollHeight :: nat
  body_offsetHeight :: nat
  docEl_clientHeight :: nat
  docEl_scrollHeight :: nat
  docEl_offsetHeight :: nat
  body_scrollWidth :: nat
  body_offsetWidth :: nat
  docEl_clientWidth :: nat
  docEl_scrollWidth :: nat
  docEl_offsetWidth :: nat
  innerHeight :: nat
  innerWidth :: nat
  getContext_ok :: bool
  tile_reply :: "nat \<Rightarrow> reply"
  image_loads :: "string \<Rightarrow> bool"

subsection \<open>The steps of one tile\<close>

text \<open>An \<open>await\<close>: the method is suspended with the controller as it is.\<close>

definition suspend :: "state \<Rightarrow> state" where
  "suspend s = s\<lparr>busy_at_await := busy_at_await s @ [isCapturing s]\<rparr>"

text \<open>
  \<open>window.scrollTo(x, y)\<close>: the window is taken to scroll to where it is told, so
  \<open>scrollX\<close> and \<open>scrollY\<close> afterwards are the arguments. \<open>wait\<close> only takes time.
  The three other steps are promises that the loop body awaits (lines 97, 100, 103).
\<close>

definition scrollTo :: "nat \<Rightarrow> nat \<Rightarrow> state \<Rightarrow> state" where
  "scrollTo x y s = s\<lparr>scrollX := x, scrollY := y, calls := calls s @ [ScrollTo x y]\<rparr>"

definition wait :: "nat \<Rightarrow> state \<Rightarrow> state" where
  "wait ms s = suspend (s\<lparr>calls := calls s @ [Wait ms]\<rparr>)"

definition captureVisibleArea :: "env \<Rightarrow> state \<Rightarrow> (error + string) \<times> state" where
  "captureVisibleArea e s =
     (let s' = suspend (s\<lparr>calls := calls s @ [CaptureVisibleTab], requests := Suc (requests s)\<rparr>)
      in case tile_reply e (requests s) of
           LastError m \<Rightarrow> (Inl (Message m), s')
         | Response ok url err \<Rightarrow>
             if ok then (Inr url, s')
             else (case err of
                     None \<Rightarrow> (Inl TileCaptureFailed, s')
                   | Some m \<Rightarrow> if m = [] then (Inl TileCaptureFailed, s') else (Inl (Message m), s')))"

definition drawImageToCanvas ::
  "env \<Rightarrow> string \<Rightarrow> nat \<Rightarrow> nat \<Rightarrow> state \<Rightarrow> (error + unit) \<times> state" where
  "drawImageToCanvas e url x y s =
     (let s' = suspend s
      in if image_loads e url then
           (if ctx s' then
              (Inr (),
               s'\<lparr>canvas := map_option (\<lambda>c. c\<lparr>drawn := drawn c @ [(url, x, y)]\<rparr>) (canvas s'),
                  calls := calls s' @ [DrawImage url x y]\<rparr>)
            else (Inl ContextUnavailable, s'))
         else (Inl ImageLoadFailed, s'))"

text \<open>The body of the inner loop, lines 90 to 103.\<close>

definition capture_tile ::
  "env \<Rightarrow> nat \<Rightarrow> nat \<Rightarrow> state \<Rightarrow> (error + unit) \<times> state" where
  "capture_tile e x y s =
     (case captureVisibleArea e (wait 100 (scrollTo x y s)) of
        (Inl err, s') \<Rightarrow> (Inl err, s')
      | (Inr url, s') \<Rightarrow> drawImageToCanvas e url x y s')"

subsection \<open>The two loops\<close>

text \<open>
  \<open>for (let col = 0; col < cols; col++)\<close> and \<open>for (let row = 0; row < rows; row++)\<close>.
  Against \<open>Infinity\<close> a loop ends only when a tile fails, so both are partial
  functions: \<open>None\<close> is a run that never returns.
\<close>

partial_function (option) capture_cols ::
  "env \<Rightarrow> nat \<Rightarrow> nat \<Rightarrow> js_number \<Rightarrow> nat \<Rightarrow> nat \<Rightarrow> state \<Rightarrow> ((error + unit) \<times> state) option"
where [code]:
  "capture_cols e vw vh cols row col s =
     (if js_less col cols then
        (case capture_tile e (col * vw) (row * vh) s of
           (Inl err, s') \<Rightarrow> Some (Inl err, s')
         | (Inr u, s') \<Rightarrow> capture_cols e vw vh cols row (Suc col) s')
      else Some (Inr (), s))"

partial_function (option) capture_rows ::
  "env \<Rightarrow> nat \<Rightarrow> nat \<Rightarrow> js_number \<Rightarrow> js_number \<Rightarrow> nat \<Rightarrow> state \<Rightarrow> ((error + unit) \<times> state) option"
where [code]:
  "capture_rows e vw vh rows cols row s =
     (if js_less row rows then
        (case capture_cols e vw vh cols row 0 s of
           None \<Rightarrow> None
         | Some (Inl err, s') \<Rightarrow> Some (Inl err, s')
         | Some (Inr u, s') \<Rightarrow> capture_rows e vw vh rows cols (Suc row) s')
      else Some (Inr (), s))"

subsection \<open>captureFullPage\<close>

text \<open>\<open>Math.max\<close> of the five metrics of each axis, lines 50 to 64.\<close>

definition pageHeight :: "env \<Rightarrow> nat" where
  "pageHeight e =
     max (body_scrollHeight e) (max (body_offsetHeight e) (max (docEl_clientHeight e)
       (max (docEl_scrollHeight e) (docEl_offsetHeight e))))"

definition pageWidth :: "env \<Rightarrow> nat" where
  "pageWidth e =
     max (body_scrollWidth e) (max (body_offsetWidth e) (max (docEl_clientWidth e)
       (max (docEl_scrollWidth e) (docEl_offsetWidth e))))"

definition toDataURL :: "CaptureOptions \<Rightarrow> canvas_el \<Rightarrow> encoded_image" where
  "toDataURL options c =
     (let quality = (case opt_quality options of Some q \<Rightarrow> q | None \<Rightarrow> 9 / 10);
          format = (case opt_format options of Some f \<Rightarrow> f | None \<Rightarrow> ''png'')
      in \<lparr>mime = ''image/'' @ format, quality = quality, surface = c\<rparr>)"

text \<open>The \<open>try\<close> block, lines 49 to 115, entered with \<open>isCapturing\<close> already set.\<close>

definition captureFullPage_try ::
  "env \<Rightarrow> CaptureOptions \<Rightarrow> state \<Rightarrow> ((error + encoded_image) \<times> state) option" where
  "captureFullPage_try e options s =
     (let viewportHeight = innerHeight e;
          viewportWidth = innerWidth e;
          c = \<lparr>width = pageWidth e, height = pageHeight e, drawn = []\<rparr>;
          s1 = s\<lparr>canvas := Some c, ctx := getContext_ok e\<rparr>
      in if \<not> ctx s1 then Some (Inl NoCanvasContext, s1)
         else
           (let originalScrollX = scrollX s1;
                originalScrollY = scrollY s1;
                rows = ceil_div (pageHeight e) viewportHeight;
                cols = ceil_div (pageWidth e) viewportWidth
            in case capture_rows e viewportWidth viewportHeight rows cols 0 s1 of
                 None \<Rightarrow> None
               | Some (Inl err, s2) \<Rightarrow> Some (Inl err, s2)
               | Some (Inr u, s2) \<Rightarrow>
                   (let s3 = scrollTo originalScrollX originalScrollY s2
                    in case canvas s3 of
                         None \<Rightarrow> Some (Inl TypeError, s3)
                       | Some cv \<Rightarrow> Some (Inr (toDataURL options cv), s3))))"

text \<open>The \<open>finally\<close> block, lines 116 to 123.\<close>

definition captureFullPage_finally :: "state \<Rightarrow> state" where
  "captureFullPage_finally s =
     (let s1 = s\<lparr>isCapturing := False\<rparr>
      in case canvas s1 of
           Some c \<Rightarrow> s1\<lparr>canvas := None, ctx := False\<rparr>
         | None \<Rightarrow> s1)"

definition captureFullPage ::
  "env \<Rightarrow> CaptureOptions \<Rightarrow> state \<Rightarrow> ((error + encoded_image) \<times> state) option" where
  "captureFullPage e options s =
     (if isCapturing s then Some (Inl AlreadyInProgress, s)
      else case captureFullPage_try e options (s\<lparr>isCapturing := True\<rparr>) of
             None \<Rightarrow> None
           | Some (r, s') \<Rightarrow> Some (r, captureFullPage_finally s'))"

section \<open>The background service worker: history and download\<close>

subsection \<open>Data\<close>

record ScreenshotData =
  id' :: string
  dataUrl :: string
  timestamp :: nat
  filename :: string
  url :: string
  title :: string

text \<open>
  The settings object that the options page keeps under the storage key \<open>settings\<close>
  (\<open>options.ts\<close>, lines 12 to 19).
\<close>

record Settings =
  captureMode :: string
  autoDownload :: bool
  saveHistory :: bool
  maxHistory :: nat
  imageQuality :: nat
  filenamePattern :: string

text \<open>A value that a \<open>catch\<close> receives: an \<open>Error\<close> with its message, or anything else.\<close>

datatype thrown = Error string | NonError

datatype log_entry = ConsoleError string thrown

text \<open>
  The state of the service worker's surroundings: the two keys of
  \<open>chrome.storage.local\<close> (a key that was never written is \<open>None\<close>), the console and
  the downloads that were started (data URL and file name).
\<close>

record bg_state =
  stored_screenshots :: "ScreenshotData list option"
  stored_settings :: "Settings option"
  console :: "log_entry list"
  downloads :: "(string \<times> string) list"

record Tab =
  tab_id :: "int option"
  windowId :: int
  tab_url :: "string option"
  tab_title :: "string option"

datatype mode = Visible | Full

text \<open>The response of the content script to \<open>captureFullPage\<close>: \<open>{success, dataUrl, error}\<close>.\<close>

datatype content_response = ContentResponse bool string "string option"

text \<open>The fields of \<open>new Date(timestamp)\<close> that the file name uses, in local time.\<close>

record date_fields =
  getFullYear :: nat
  getMonth :: nat
  getDate :: nat
  getHours :: nat
  getMinutes :: nat

text \<open>
  What one request reads from its surroundings: the outcome of
  \<open>chrome.tabs.captureVisibleTab\<close> and of \<open>chrome.tabs.sendMessage\<close>, the clock and
  the local calendar, and whether the storage read, the storage write of a given list
  and the download of a given file are rejected (\<open>Some\<close> the rejection) or not.
\<close>

record bg_env =
  captureVisibleTab_result :: "thrown + string"
  sendMessage_result :: "thrown + content_response"
  now :: nat
  local_date :: "nat \<Rightarrow> date_fields"
  storage_get_rejects :: "thrown option"
  storage_set_rejects :: "ScreenshotData list \<Rightarrow> thrown option"
  download_rejects :: "string \<Rightarrow> string \<Rightarrow> thrown option"

record capture_response =
  success :: bool
  r_dataUrl :: "string option"
  r_filename :: "string option"
  r_error :: "string option"

record delete_response =
  d_success :: bool
  d_error :: "string option"

record history_response =
  h_success :: bool
  h_screenshots :: "ScreenshotData list option"
  h_error :: "string option"

subsection \<open>Strings\<close>

text \<open>\<open>String(n)\<close> for a non-negative integer, and \<open>padStart(2, '0')\<close>.\<close>

fun String_of :: "nat \<Rightarrow> string" where
  "String_of n =
     (if n < 10 then [char_of (48 + n)]
      else String_of (n div 10) @ [char_of (48 + n mod 10)])"

declare String_of.simps [simp del]

definition padStart2 :: "string \<Rightarrow> string" where
  "padStart2 s = replicate (2 - length s) CHR ''0'' @ s"

text \<open>\<open>error instanceof Error ? error.message : 'Unknown error'\<close>.\<close>

fun message_of :: "thrown \<Rightarrow> string" where
  "message_of (Error m) = m"
| "message_of NonError = ''Unknown error''"

subsection \<open>Storage, console, downloads\<close>

definition console_error :: "string \<Rightarrow> thrown \<Rightarrow> bg_state \<Rightarrow> bg_state" where
  "console_error label err st = st\<lparr>console := console st @ [ConsoleError label err]\<rparr>"

text \<open>\<open>chrome.storage.local.get(['screenshots'])\<close>, then \<open>result.screenshots || []\<close>.\<close>

definition storage_get :: "bg_env \<Rightarrow> bg_state \<Rightarrow> thrown + ScreenshotData list" where
  "storage_get e st =
     (case storage_get_rejects e of
        Some err \<Rightarrow> Inl err
      | None \<Rightarrow> Inr (case stored_screenshots st of None \<Rightarrow> [] | Some xs \<Rightarrow> xs))"

text \<open>\<open>chrome.storage.local.set({ screenshots })\<close>: a rejected write stores nothing.\<close>

definition storage_set ::
  "bg_env \<Rightarrow> ScreenshotData list \<Rightarrow> bg_state \<Rightarrow> (thrown + unit) \<times> bg_state" where
  "storage_set e xs st =
     (case storage_set_rejects e xs of
        Some err \<Rightarrow> (Inl err, st)
      | None \<Rightarrow> (Inr (), st\<lparr>stored_screenshots := Some xs\<rparr>))"

subsection \<open>saveScreenshot, lines 129 to 146\<close>

definition saveScreenshot ::
  "bg_env \<Rightarrow> ScreenshotData \<Rightarrow> bg_state \<Rightarrow> (thrown + unit) \<times> bg_state" where
  "saveScreenshot e screenshot st =
     (let tried =
        (case storage_get e st of
           Inl err \<Rightarrow> (Inl err, st)
         | Inr screenshots \<Rightarrow>
             (let unshifted = screenshot # screenshots;
                  spliced = (if length unshifted > 50 then take 50 unshifted else unshifted)
              in storage_set e spliced st))
      in case tried of
           (Inl err, st') \<Rightarrow>
             (Inl (Error ''Failed to save screenshot to storage''),
              console_error ''Save screenshot error:'' err st')
         | (Inr u, st') \<Rightarrow> (Inr (), st'))"

subsection \<open>downloadScreenshot, lines 149 to 160\<close>

definition downloadScreenshot ::
  "bg_env \<Rightarrow> string \<Rightarrow> string \<Rightarrow> bg_state \<Rightarrow> (thrown + unit) \<times> bg_state" where
  "downloadScreenshot e data_url name st =
     (case download_rejects e data_url name of
        Some err \<Rightarrow>
          (Inl (Error ''Failed to download screenshot''),
           console_error ''Download error:'' err st)
      | None \<Rightarrow> (Inr (), st\<lparr>downloads := downloads st @ [(data_url, name)]\<rparr>))"

subsection \<open>handleCapture, lines 64 to 126\<close>

text \<open>The image acquisition of lines 69 to 92: what is thrown, or the data URL.\<close>

definition acquire :: "bg_env \<Rightarrow> mode \<Rightarrow> Tab option \<Rightarrow> thrown + string" where
  "acquire e m tab =
     (if (case tab of None \<Rightarrow> True
          | Some t \<Rightarrow> (case tab_id t of None \<Rightarrow> True | Some i \<Rightarrow> i = 0))
      then Inl (Error ''No active tab found'')
      else if m = Visible then captureVisibleTab_result e
      else (case sendMessage_result e of
              Inl err \<Rightarrow> Inl err
            | Inr (ContentResponse ok data_url err) \<Rightarrow>
                if \<not> ok then
                  Inl (Error (case err of None \<Rightarrow> ''Full page capture failed''
                              | Some msg \<Rightarrow> if msg = [] then ''Full page capture failed'' else msg))
                else Inr data_url))"

definition make_filename :: "bg_env \<Rightarrow> nat \<Rightarrow> string" where
  "make_filename e ts =
     (let date = local_date e ts
      in ''screenshot_'' @ String_of (getFullYear date)
         @ padStart2 (String_of (getMonth date + 1))
         @ padStart2 (String_of (getDate date)) @ ''_''
         @ padStart2 (String_of (getHours date))
         @ padStart2 (String_of (getMinutes date)) @ ''_''
         @ String_of ts @ ''.png'')"

definition or_empty :: "string option \<Rightarrow> string" where
  "or_empty v = (case v of None \<Rightarrow> [] | Some x \<Rightarrow> x)"

text \<open>The record of lines 100 to 107.\<close>

definition screenshotData :: "bg_env \<Rightarrow> Tab option \<Rightarrow> string \<Rightarrow> ScreenshotData" where
  "screenshotData e tab data_url =
     (let ts = now e
      in \<lparr>id' = ''screenshot_'' @ String_of ts, dataUrl = data_url, timestamp = ts,
          filename = make_filename e ts,
          url = or_empty (Option.bind tab tab_url),
          title = or_empty (Option.bind tab tab_title)\<rparr>)"

definition handleCapture ::
  "bg_env \<Rightarrow> mode \<Rightarrow> Tab option \<Rightarrow> bg_state \<Rightarrow> capture_response \<times> bg_state" where
  "handleCapture e m tab st =
     (let tried =
        (case acquire e m tab of
           Inl err \<Rightarrow> (Inl err, st)
         | Inr data_url \<Rightarrow>
             (let name = make_filename e (now e)
              in case saveScreenshot e (screenshotData e tab data_url) st of
                   (Inl err, st1) \<Rightarrow> (Inl err, st1)
                 | (Inr u, st1) \<Rightarrow>
                     (case downloadScreenshot e data_url name st1 of
                        (Inl err, st2) \<Rightarrow> (Inl err, st2)
                      | (Inr u, st2) \<Rightarrow> (Inr (data_url, name), st2))))
      in case tried of
           (Inl err, st') \<Rightarrow>
             (\<lparr>success = False, r_dataUrl = None, r_filename = None,
               r_error = Some (message_of err)\<rparr>,
              console_error ''Capture error:'' err st')
         | (Inr (data_url, name), st') \<Rightarrow>
             (\<lparr>success = True, r_dataUrl = Some data_url, r_filename = Some name,
               r_error = None\<rparr>, st'))"

subsection \<open>getScreenshotHistory and deleteScreenshot, lines 163 to 204\<close>

definition getScreenshotHistory :: "bg_env \<Rightarrow> bg_state \<Rightarrow> history_response \<times> bg_state" where
  "getScreenshotHistory e st =
     (case storage_get e st of
        Inr xs \<Rightarrow> (\<lparr>h_success = True, h_screenshots = Some xs, h_error = None\<rparr>, st)
      | Inl err \<Rightarrow>
          (\<lparr>h_success = False, h_screenshots = None, h_error = Some (message_of err)\<rparr>,
           console_error ''Get history error:'' err st))"

definition deleteScreenshot ::
  "bg_env \<Rightarrow> string \<Rightarrow> bg_state \<Rightarrow> delete_response \<times> bg_state" where
  "deleteScreenshot e i st =
     (let tried =
        (case storage_get e st of
           Inl err \<Rightarrow> (Inl err, st)
         | Inr screenshots \<Rightarrow>
             (let filteredScreenshots = filter (\<lambda>s. id' s \<noteq> i) screenshots
              in storage_set e filteredScreenshots st))
      in case tried of
           (Inr u, st') \<Rightarrow> (\<lparr>d_success = True, d_error = None\<rparr>, st')
         | (Inl err, st') \<Rightarrow>
             (\<lparr>d_success = False, d_error = Some (message_of err)\<rparr>,
              console_error ''Delete screenshot error:'' err st'))"

text \<open>
  The sequence that the store holds, as every reader of the key sees it
  (\<open>result.screenshots || []\<close>), and the \<open>maxHistory\<close> that the options page has
  configured (its default is 50, \<open>options.ts\<close> line 34).
\<close>

definition history :: "bg_state \<Rightarrow> ScreenshotData list" where
  "history st = (case stored_screenshots st of None \<Rightarrow> [] | Some xs \<Rightarrow> xs)"

definition configured_maxHistory :: "bg_state \<Rightarrow> nat" where
  "configured_maxHistory st = (case stored_settings st of None \<Rightarrow> 50 | Some c \<Rightarrow> maxHistory c)"

subsection \<open>The message listener, lines 29 to 61\<close>

text \<open>
  A message is dispatched on its \<open>action\<close>. \<open>handleCapture\<close>, \<open>getScreenshotHistory\<close>
  and \<open>deleteScreenshot\<close> catch what they throw themselves, so the listener's own
  \<open>catch\<close> is never reached and the response is what they return. Any other action,
  \<open>captureVisibleTab\<close> among them, is answered by the \<open>default\<close> branch.
\<close>

datatype message =
    CaptureMessage mode
  | GetHistoryMessage
  | DeleteScreenshotMessage string
  | OtherMessage string

datatype response =
    CaptureResponse capture_response
  | HistoryResponse history_response
  | DeleteResponse delete_response
  | UnknownAction

definition onMessage ::
  "bg_env \<Rightarrow> message \<Rightarrow> Tab option \<Rightarrow> bg_state \<Rightarrow> response \<times> bg_state" where
  "onMessage e msg sender_tab st =
     (case msg of
        CaptureMessage m \<Rightarrow> map_prod CaptureResponse (\<lambda>x. x) (handleCapture e m sender_tab st)
      | GetHistoryMessage \<Rightarrow> map_prod HistoryResponse (\<lambda>x. x) (getScreenshotHistory e st)
      | DeleteScreenshotMessage i \<Rightarrow> map_prod DeleteResponse (\<lambda>x. x) (deleteScreenshot e i st)
      | OtherMessage action \<Rightarrow> (UnknownAction, st))"

section \<open>Vocabulary of the properties\<close>

text \<open>
  The \<open>n\<close>-th tile request is answered with an image that loads; the data URL of that
  answer; the four calls of one tile at offset \<open>(x, y)\<close>.
\<close>

definition tile_ok :: "env \<Rightarrow> nat \<Rightarrow> bool" where
  "tile_ok e n =
     (case tile_reply e n of
        Response ok u err \<Rightarrow> ok \<and> image_loads e u
      | LastError m \<Rightarrow> False)"

definition tile_url :: "env \<Rightarrow> nat \<Rightarrow> string" where
  "tile_url e n = (case tile_reply e n of Response ok u err \<Rightarrow> u | LastError m \<Rightarrow> [])"

definition tile_events :: "env \<Rightarrow> nat \<Rightarrow> nat \<Rightarrow> nat \<Rightarrow> event list" where
  "tile_events e n x y =
     [ScrollTo x y, Wait 100, CaptureVisibleTab, DrawImage (tile_url e n) x y]"

definition draw_on :: "(string \<times> nat \<times> nat) list \<Rightarrow> canvas_el option \<Rightarrow> canvas_el option" where
  "draw_on ds cv = map_option (\<lambda>c. c\<lparr>drawn := drawn c @ ds\<rparr>) cv"

text \<open>
  Two states agree on the controller: the same \<open>isCapturing\<close> and \<open>ctx\<close>, and a canvas
  of the same size, or none in both.
\<close>

definition same_controller :: "state \<Rightarrow> state \<Rightarrow> bool" where
  "same_controller s s' =
     (isCapturing s' = isCapturing s \<and> ctx s' = ctx s
      \<and> map_option (\<lambda>c. (width c, height c)) (canvas s')
          = map_option (\<lambda>c. (width c, height c)) (canvas s))"

text \<open>
  From one state to a later one the flag is the same, and every \<open>await\<close> in between
  was made with the flag at that value.
\<close>

definition flag_kept :: "state \<Rightarrow> state \<Rightarrow> bool" where
  "flag_kept s s' =
     (isCapturing s' = isCapturing s
      \<and> (\<exists>k. busy_at_await s' = busy_at_await s @ replicate k (isCapturing s)))"

section \<open>Concrete inputs\<close>

definition default_options :: CaptureOptions where
  "default_options = \<lparr>opt_quality = None, opt_format = None\<rparr>"

text \<open>A page of 1000 by 1000 in a viewport of 400 by 400; every tile request succeeds.\<close>

definition page_1000 :: env where
  "page_1000 =
     \<lparr>body_scrollHeight = 1000, body_offsetHeight = 980, docEl_clientHeight = 400,
      docEl_scrollHeight = 1000, docEl_offsetHeight = 980,
      body_scrollWidth = 1000, body_offsetWidth = 1000, docEl_clientWidth = 400,
      docEl_scrollWidth = 1000, docEl_offsetWidth = 1000,
      innerHeight = 400, innerWidth = 400, getContext_ok = True,
      tile_reply = (\<lambda>n. Response True ''data:image/png;tile'' None),
      image_loads = (\<lambda>u. True)\<rparr>"

text \<open>A controller at rest on a page that the user has scrolled down by 250.\<close>

definition idle_state :: state where
  "idle_state =
     \<lparr>isCapturing = False, canvas = None, ctx = False, scrollX = 0, scrollY = 250,
      calls = [], requests = 0, busy_at_await = []\<rparr>"

text \<open>
  The same controller in the middle of a session: the first tile is drawn, the window
  has been scrolled to the second tile and the session waits for it to settle.
\<close>

definition busy_state :: state where
  "busy_state =
     \<lparr>isCapturing = True,
      canvas = Some \<lparr>width = 1000, height = 1000, drawn = [(''data:image/png;tile'', 0, 0)]\<rparr>,
      ctx = True, scrollX = 400, scrollY = 0,
      calls = [ScrollTo 0 0, Wait 100, CaptureVisibleTab, DrawImage ''data:image/png;tile'' 0 0,
               ScrollTo 400 0, Wait 100],
      requests = 1, busy_at_await = [True, True, True, True]\<rparr>"

text \<open>
  The same page when every tile request is answered \<open>{success: false, error: 'Unknown
  action'}\<close>, which is what the \<open>default\<close> branch of the service worker's listener
  sends.
\<close>

definition page_unanswered :: env where
  "page_unanswered = page_1000\<lparr>tile_reply := (\<lambda>n. Response False [] (Some ''Unknown action''))\<rparr>"

text \<open>A page of 1920 by 3000 in a viewport of 1920 by 1000.\<close>

definition page_1920 :: env where
  "page_1920 =
     \<lparr>body_scrollHeight = 3000, body_offsetHeight = 3000, docEl_clientHeight = 1000,
      docEl_scrollHeight = 3000, docEl_offsetHeight = 2990,
      body_scrollWidth = 1920, body_offsetWidth = 1900, docEl_clientWidth = 1920,
      docEl_scrollWidth = 1920, docEl_offsetWidth = 1920,
      innerHeight = 1000, innerWidth = 1920, getContext_ok = True,
      tile_reply = (\<lambda>n. Response True ''data:image/png;tile'' None),
      image_loads = (\<lambda>u. True)\<rparr>"

text \<open>A tab, a clock, and a service worker whose storage and downloads all work.\<close>

definition tab_1 :: Tab where
  "tab_1 = \<lparr>tab_id = Some 7, windowId = 1, tab_url = Some ''https://example.org/'',
     tab_title = Some ''Example''\<rparr>"

definition bg_ok :: bg_env where
  "bg_ok =
     \<lparr>captureVisibleTab_result = Inr ''data:image/png;base64,AAAA'',
      sendMessage_result = Inr (ContentResponse True ''data:image/png;base64,BBBB'' None),
      now = 1700000000000,
      local_date = (\<lambda>t. \<lparr>getFullYear = 2023, getMonth = 10, getDate = 14, getHours = 22,
                            getMinutes = 13\<rparr>),
      storage_get_rejects = None,
      storage_set_rejects = (\<lambda>xs. None),
      download_rejects = (\<lambda>u n. None)\<rparr>"

text \<open>The same, with every storage write rejected; and with every download rejected.\<close>

definition storage_full :: bg_env where
  "storage_full = bg_ok\<lparr>storage_set_rejects := (\<lambda>xs. Some (Error ''QUOTA_BYTES quota exceeded''))\<rparr>"

definition download_blocked :: bg_env where
  "download_blocked = bg_ok\<lparr>download_rejects := (\<lambda>u n. Some (Error ''Download canceled''))\<rparr>"

text \<open>Stored records, and stores that hold some.\<close>

definition old_record :: "nat \<Rightarrow> ScreenshotData" where
  "old_record k =
     \<lparr>id' = ''screenshot_'' @ String_of k, dataUrl = ''data:image/png;base64,AAAA'',
      timestamp = k, filename = ''screenshot_'' @ String_of k @ ''.png'',
      url = ''https://example.org/'', title = ''Example''\<rparr>"

definition empty_store :: bg_state where
  "empty_store = \<lparr>stored_screenshots = None, stored_settings = None, console = [], downloads = []\<rparr>"

definition store_of_ten :: bg_state where
  "store_of_ten =
     \<lparr>stored_screenshots = Some (map old_record (rev [0..<10])),
      stored_settings = Some \<lparr>captureMode = ''visible'', autoDownload = True, saveHistory = True,
        maxHistory = 10, imageQuality = 90, filenamePattern = ''screenshot_{date}_{time}''\<rparr>,
      console = [], downloads = []\<rparr>"

definition store_of_fifty :: bg_state where
  "store_of_fifty =
     \<lparr>stored_screenshots = Some (map old_record (rev [0..<50])), stored_settings = None,
      console = [], downloads = []\<rparr>"

definition store_with_duplicates :: bg_state where
  "store_with_duplicates =
     \<lparr>stored_screenshots = Some [old_record 3, old_record 2, old_record 3, old_record 1, old_record 3],
      stored_settings = None, console = [], downloads = []\<rparr>"

section \<open>The loops\<close>

lemma draw_on_Nil: "draw_on [] cv = cv"
  by (cases cv) (simp_all add: draw_on_def)

lemma draw_on_draw_on: "draw_on ds2 (draw_on ds1 cv) = draw_on (ds1 @ ds2) cv"
  by (cases cv) (simp_all add: draw_on_def)

lemma capture_tile_ok:
  assumes "tile_ok e (requests s)" and "ctx s"
  shows "capture_tile e x y s =
    (Inr (), s\<lparr>canvas := draw_on [(tile_url e (requests s), x, y)] (canvas s),
              scrollX := x, scrollY := y,
              calls := calls s @ tile_events e (requests s) x y,
              requests := Suc (requests s),
              busy_at_await := busy_at_await s @ replicate 3 (isCapturing s)\<rparr>)"
  using assms
  by (auto simp: capture_tile_def captureVisibleArea_def wait_def scrollTo_def drawImageToCanvas_def
      suspend_def tile_ok_def tile_url_def tile_events_def draw_on_def Let_def numeral_3_eq_3
      split: reply.splits)

lemma capture_cols_ok:
  assumes "ctx s" and "\<forall>j < cols - col. tile_ok e (requests s + j)"
  shows "\<exists>s'. capture_cols e vw vh (Finite cols) row col s = Some (Inr (), s')
    \<and> isCapturing s' = isCapturing s \<and> ctx s' = ctx s
    \<and> requests s' = requests s + (cols - col)
    \<and> calls s' = calls s @ concat (map (\<lambda>j. tile_events e (requests s + j) ((col + j) * vw) (row * vh)) [0..<cols - col])
    \<and> canvas s' = draw_on (map (\<lambda>j. (tile_url e (requests s + j), (col + j) * vw, row * vh)) [0..<cols - col]) (canvas s)
    \<and> busy_at_await s' = busy_at_await s @ replicate (3 * (cols - col)) (isCapturing s)"
  using assms
proof (induction "cols - col" arbitrary: col s)
  case 0
  then show ?case
    by (subst capture_cols.simps) (simp add: draw_on_Nil)
next
  case (Suc m)
  let ?s1 = "s\<lparr>canvas := draw_on [(tile_url e (requests s), col * vw, row * vh)] (canvas s),
              scrollX := col * vw, scrollY := row * vh,
              calls := calls s @ tile_events e (requests s) (col * vw) (row * vh),
              requests := Suc (requests s),
              busy_at_await := busy_at_await s @ replicate 3 (isCapturing s)\<rparr>"
  from Suc.hyps(2) have lt: "col < cols" and m: "m = cols - Suc col" by arith+
  from Suc.prems(2) Suc.hyps(2) have ok0: "tile_ok e (requests s)"
    by (metis add.right_neutral zero_less_Suc)
  have tile: "capture_tile e (col * vw) (row * vh) s = (Inr (), ?s1)"
    by (rule capture_tile_ok [OF ok0 Suc.prems(1)])
  have ctx1: "ctx ?s1" using Suc.prems(1) by simp
  have ok1: "\<forall>j < cols - Suc col. tile_ok e (requests ?s1 + j)"
  proof (intro allI impI)
    fix j assume "j < cols - Suc col"
    then have "Suc j < cols - col" by arith
    with Suc.prems(2) have "tile_ok e (requests s + Suc j)" by blast
    then show "tile_ok e (requests ?s1 + j)" by simp
  qed
  from Suc.hyps(1) [OF m ctx1 ok1] obtain s' where
    run: "capture_cols e vw vh (Finite cols) row (Suc col) ?s1 = Some (Inr (), s')"
    and inv: "isCapturing s' = isCapturing ?s1" "ctx s' = ctx ?s1"
    and req: "requests s' = requests ?s1 + (cols - Suc col)"
    and cl: "calls s' = calls ?s1 @ concat (map (\<lambda>j. tile_events e (requests ?s1 + j) ((Suc col + j) * vw) (row * vh)) [0..<cols - Suc col])"
    and cv: "canvas s' = draw_on (map (\<lambda>j. (tile_url e (requests ?s1 + j), (Suc col + j) * vw, row * vh)) [0..<cols - Suc col]) (canvas ?s1)"
    and aw: "busy_at_await s' = busy_at_await ?s1 @ replicate (3 * (cols - Suc col)) (isCapturing ?s1)"
    by blast
  have len: "cols - col = Suc m" using Suc.hyps(2) by simp
  have "capture_cols e vw vh (Finite cols) row col s = Some (Inr (), s')"
    by (subst capture_cols.simps) (simp add: lt tile run)
  moreover have "requests s' = requests s + (cols - col)"
    using req lt by simp
  moreover have "calls s' = calls s @ concat (map (\<lambda>j. tile_events e (requests s + j) ((col + j) * vw) (row * vh)) [0..<cols - col])"
    using cl by (simp add: len m [symmetric] map_upt_Suc del: upt_Suc)
  moreover have "canvas s' = draw_on (map (\<lambda>j. (tile_url e (requests s + j), (col + j) * vw, row * vh)) [0..<cols - col]) (canvas s)"
    using cv by (simp add: len m [symmetric] map_upt_Suc draw_on_draw_on del: upt_Suc)
  moreover have "busy_at_await s' = busy_at_await s @ replicate (3 * (cols - col)) (isCapturing s)"
    using aw by (simp add: len m [symmetric] replicate_add [symmetric])
  ultimately show ?case using inv by simp
qed

lemma capture_rows_ok:
  assumes "ctx s" and "\<forall>k < (rows - row) * cols. tile_ok e (requests s + k)"
  shows "\<exists>s'. capture_rows e vw vh (Finite rows) (Finite cols) row s = Some (Inr (), s')
    \<and> isCapturing s' = isCapturing s \<and> ctx s' = ctx s
    \<and> requests s' = requests s + (rows - row) * cols
    \<and> calls s' = calls s @ concat (map (\<lambda>i. concat (map (\<lambda>j.
          tile_events e (requests s + i * cols + j) (j * vw) ((row + i) * vh)) [0..<cols])) [0..<rows - row])
    \<and> canvas s' = draw_on (concat (map (\<lambda>i. map (\<lambda>j.
          (tile_url e (requests s + i * cols + j), j * vw, (row + i) * vh)) [0..<cols]) [0..<rows - row])) (canvas s)
    \<and> busy_at_await s' = busy_at_await s @ replicate (3 * ((rows - row) * cols)) (isCapturing s)"
  using assms
proof (induction "rows - row" arbitrary: row s)
  case 0
  then show ?case
    by (subst capture_rows.simps) (simp add: draw_on_Nil)
next
  case (Suc m)
  from Suc.hyps(2) have lt: "row < rows" and m: "m = rows - Suc row" by arith+
  have len: "rows - row = Suc m" using Suc.hyps(2) by simp
  have ok_row: "\<forall>j < cols - 0. tile_ok e (requests s + j)"
  proof (intro allI impI)
    fix j assume "j < cols - 0"
    then have "j < (rows - row) * cols" by (simp add: len)
    with Suc.prems(2) show "tile_ok e (requests s + j)" by blast
  qed
  from capture_cols_ok [OF Suc.prems(1) ok_row, of vw vh row] obtain s1 where
    inner: "capture_cols e vw vh (Finite cols) row 0 s = Some (Inr (), s1)"
    and inv1: "isCapturing s1 = isCapturing s" "ctx s1 = ctx s"
    and req1: "requests s1 = requests s + cols"
    and cl1: "calls s1 = calls s @ concat (map (\<lambda>j. tile_events e (requests s + j) (j * vw) (row * vh)) [0..<cols])"
    and cv1: "canvas s1 = draw_on (map (\<lambda>j. (tile_url e (requests s + j), j * vw, row * vh)) [0..<cols]) (canvas s)"
    and aw1: "busy_at_await s1 = busy_at_await s @ replicate (3 * cols) (isCapturing s)"
    by auto
  have ctx1: "ctx s1" using inv1 Suc.prems(1) by simp
  have ok1: "\<forall>k < (rows - Suc row) * cols. tile_ok e (requests s1 + k)"
  proof (intro allI impI)
    fix k assume "k < (rows - Suc row) * cols"
    then have "cols + k < (rows - row) * cols" by (simp add: len m [symmetric])
    with Suc.prems(2) have "tile_ok e (requests s + (cols + k))" by blast
    then show "tile_ok e (requests s1 + k)" by (simp add: req1 add.assoc)
  qed
  from Suc.hyps(1) [OF m ctx1 ok1] obtain s' where
    run: "capture_rows e vw vh (Finite rows) (Finite cols) (Suc row) s1 = Some (Inr (), s')"
    and inv: "isCapturing s' = isCapturing s1" "ctx s' = ctx s1"
    and req: "requests s' = requests s1 + (rows - Suc row) * cols"
    and cl: "calls s' = calls s1 @ concat (map (\<lambda>i. concat (map (\<lambda>j.
          tile_events e (requests s1 + i * cols + j) (j * vw) ((Suc row + i) * vh)) [0..<cols])) [0..<rows - Suc row])"
    and cv: "canvas s' = draw_on (concat (map (\<lambda>i. map (\<lambda>j.
          (tile_url e (requests s1 + i * cols + j), j * vw, (Suc row + i) * vh)) [0..<cols]) [0..<rows - Suc row])) (canvas s1)"
    and aw: "busy_at_await s' = busy_at_await s1 @ replicate (3 * ((rows - Suc row) * cols)) (isCapturing s1)"
    by blast
  have idx: "\<And>i j. requests s1 + i * cols + j = requests s + Suc i * cols + j"
    by (simp add: req1)
  have "capture_rows e vw vh (Finite rows) (Finite cols) row s = Some (Inr (), s')"
    by (subst capture_rows.simps) (simp add: lt inner run)
  moreover have "requests s' = requests s + (rows - row) * cols"
    using req by (simp add: req1 len m [symmetric])
  moreover have "calls s' = calls s @ concat (map (\<lambda>i. concat (map (\<lambda>j.
          tile_events e (requests s + i * cols + j) (j * vw) ((row + i) * vh)) [0..<cols])) [0..<rows - row])"
    unfolding cl cl1 idx len m [symmetric] by (simp add: map_upt_Suc del: upt_Suc)
  moreover have "canvas s' = draw_on (concat (map (\<lambda>i. map (\<lambda>j.
          (tile_url e (requests s + i * cols + j), j * vw, (row + i) * vh)) [0..<cols]) [0..<rows - row])) (canvas s)"
    unfolding cv cv1 idx len m [symmetric] by (simp add: map_upt_Suc draw_on_draw_on del: upt_Suc)
  moreover have "busy_at_await s' =
      busy_at_await s @ replicate (3 * ((rows - row) * cols)) (isCapturing s)"
    unfolding aw aw1 inv1 len m [symmetric]
    by (simp add: replicate_add [symmetric] distrib_left)
  ultimately show ?case using inv inv1 by simp
qed

lemma ceil_div_pos: "0 < b \<Longrightarrow> ceil_div a b = Finite (nat \<lceil>real a / real b\<rceil>)"
  by (simp add: ceil_div_def)

lemma captureFullPage_ok:
  assumes idle: "\<not> isCapturing s" and has_ctx: "getContext_ok e"
    and vw: "0 < innerWidth e" and vh: "0 < innerHeight e"
    and rows: "rows = nat \<lceil>real (pageHeight e) / real (innerHeight e)\<rceil>"
    and cols: "cols = nat \<lceil>real (pageWidth e) / real (innerWidth e)\<rceil>"
    and tiles: "\<forall>k < rows * cols. tile_ok e (requests s + k)"
  shows "\<exists>s'. captureFullPage e options s =
      Some (Inr (toDataURL options \<lparr>width = pageWidth e, height = pageHeight e,
        drawn = concat (map (\<lambda>i. map (\<lambda>j.
          (tile_url e (requests s + i * cols + j), j * innerWidth e, i * innerHeight e)) [0..<cols]) [0..<rows])\<rparr>), s')
    \<and> \<not> isCapturing s' \<and> canvas s' = None \<and> \<not> ctx s'
    \<and> scrollX s' = scrollX s \<and> scrollY s' = scrollY s
    \<and> requests s' = requests s + rows * cols
    \<and> calls s' = calls s @ concat (map (\<lambda>i. concat (map (\<lambda>j.
          tile_events e (requests s + i * cols + j) (j * innerWidth e) (i * innerHeight e)) [0..<cols])) [0..<rows])
        @ [ScrollTo (scrollX s) (scrollY s)]
    \<and> busy_at_await s' = busy_at_await s @ replicate (3 * (rows * cols)) True"
proof -
  let ?c = "\<lparr>width = pageWidth e, height = pageHeight e, drawn = []\<rparr>"
  let ?s1 = "s\<lparr>isCapturing := True, canvas := Some ?c, ctx := getContext_ok e\<rparr>"
  have ctx1: "ctx ?s1" using has_ctx by simp
  have ok1: "\<forall>k < (rows - 0) * cols. tile_ok e (requests ?s1 + k)" using tiles by simp
  from capture_rows_ok [OF ctx1 ok1, of "innerWidth e" "innerHeight e"] has_ctx obtain s2 where
    run: "capture_rows e (innerWidth e) (innerHeight e) (Finite rows) (Finite cols) 0 ?s1 = Some (Inr (), s2)"
    and inv: "isCapturing s2" "ctx s2"
    and req: "requests s2 = requests s + rows * cols"
    and cl: "calls s2 = calls s @ concat (map (\<lambda>i. concat (map (\<lambda>j.
          tile_events e (requests s + i * cols + j) (j * innerWidth e) (i * innerHeight e)) [0..<cols])) [0..<rows])"
    and cv: "canvas s2 = draw_on (concat (map (\<lambda>i. map (\<lambda>j.
          (tile_url e (requests s + i * cols + j), j * innerWidth e, i * innerHeight e)) [0..<cols]) [0..<rows])) (Some ?c)"
    and aw: "busy_at_await s2 = busy_at_await s @ replicate (3 * (rows * cols)) True"
    by auto
  have body: "captureFullPage_try e options (s\<lparr>isCapturing := True\<rparr>) =
    Some (Inr (toDataURL options \<lparr>width = pageWidth e, height = pageHeight e,
        drawn = concat (map (\<lambda>i. map (\<lambda>j.
          (tile_url e (requests s + i * cols + j), j * innerWidth e, i * innerHeight e)) [0..<cols]) [0..<rows])\<rparr>),
      scrollTo (scrollX s) (scrollY s) s2)"
    using has_ctx run cv
    by (simp add: captureFullPage_try_def Let_def ceil_div_pos [OF vw] ceil_div_pos [OF vh]
        rows [symmetric] cols [symmetric] scrollTo_def draw_on_def)
  show ?thesis
    using idle inv req cl cv aw
    by (simp add: captureFullPage_def body captureFullPage_finally_def scrollTo_def draw_on_def Let_def)
qed

lemma same_controller_refl: "same_controller s s"
  by (simp add: same_controller_def)

lemma same_controller_trans:
  "same_controller s s1 \<Longrightarrow> same_controller s1 s2 \<Longrightarrow> same_controller s s2"
  by (simp add: same_controller_def)

lemma capture_tile_inv:
  assumes "capture_tile e x y s = (r, s')"
  shows "same_controller s s' \<and> r \<noteq> Inl AlreadyInProgress"
proof (cases "canvas s")
  case None
  with assms show ?thesis
    by (auto simp: capture_tile_def captureVisibleArea_def wait_def scrollTo_def
        drawImageToCanvas_def suspend_def same_controller_def Let_def
        split: reply.splits if_splits option.splits)
next
  case (Some c)
  with assms show ?thesis
    by (auto simp: capture_tile_def captureVisibleArea_def wait_def scrollTo_def
        drawImageToCanvas_def suspend_def same_controller_def Let_def
        split: reply.splits if_splits option.splits)
qed

lemma capture_cols_inv:
  assumes "capture_cols e vw vh cols row col s = Some y"
  shows "same_controller s (snd y) \<and> fst y \<noteq> Inl AlreadyInProgress"
proof (rule capture_cols.raw_induct
    [where P = "\<lambda>e vw vh cols row col s y. same_controller s (snd y) \<and> fst y \<noteq> Inl AlreadyInProgress",
      OF _ assms])
  fix f e vw vh cols row col s and y :: "(error + unit) \<times> state"
  assume IH: "\<And>e vw vh cols row col s y. f e vw vh cols row col s = Some y \<Longrightarrow>
      same_controller s (snd y) \<and> fst y \<noteq> Inl AlreadyInProgress"
    and eq: "(if js_less col cols
        then case capture_tile e (col * vw) (row * vh) s of
               (Inl err, s') \<Rightarrow> Some (Inl err, s')
             | (Inr u, s') \<Rightarrow> f e vw vh cols row (Suc col) s'
        else Some (Inr (), s)) = Some y"
  show "same_controller s (snd y) \<and> fst y \<noteq> Inl AlreadyInProgress"
  proof (cases "js_less col cols")
    case False
    with eq show ?thesis by (auto simp: same_controller_def)
  next
    case True
    obtain r s1 where tile: "capture_tile e (col * vw) (row * vh) s = (r, s1)"
      by (cases "capture_tile e (col * vw) (row * vh) s")
    note inv = capture_tile_inv [OF tile]
    show ?thesis
    proof (cases r)
      case (Inl err)
      with eq True tile inv show ?thesis by auto
    next
      case (Inr u)
      with eq True tile have "f e vw vh cols row (Suc col) s1 = Some y" by simp
      from IH [OF this] inv show ?thesis by (blast intro: same_controller_trans)
    qed
  qed
qed

lemma capture_rows_inv:
  assumes "capture_rows e vw vh rows cols row s = Some y"
  shows "same_controller s (snd y) \<and> fst y \<noteq> Inl AlreadyInProgress"
proof (rule capture_rows.raw_induct
    [where P = "\<lambda>e vw vh rows cols row s y. same_controller s (snd y) \<and> fst y \<noteq> Inl AlreadyInProgress",
      OF _ assms])
  fix f e vw vh rows cols row s and y :: "(error + unit) \<times> state"
  assume IH: "\<And>e vw vh rows cols row s y. f e vw vh rows cols row s = Some y \<Longrightarrow>
      same_controller s (snd y) \<and> fst y \<noteq> Inl AlreadyInProgress"
    and eq: "(if js_less row rows
        then case capture_cols e vw vh cols row 0 s of
               None \<Rightarrow> None
             | Some (Inl err, s') \<Rightarrow> Some (Inl err, s')
             | Some (Inr u, s') \<Rightarrow> f e vw vh rows cols (Suc row) s'
        else Some (Inr (), s)) = Some y"
  show "same_controller s (snd y) \<and> fst y \<noteq> Inl AlreadyInProgress"
  proof (cases "js_less row rows")
    case False
    with eq show ?thesis by (auto simp: same_controller_def)
  next
    case True
    with eq obtain r s1 where inner: "capture_cols e vw vh cols row 0 s = Some (r, s1)"
      by (cases "capture_cols e vw vh cols row 0 s") auto
    from capture_cols_inv [OF inner]
    have inv: "same_controller s s1" "r \<noteq> Inl AlreadyInProgress" by simp_all
    show ?thesis
    proof (cases r)
      case (Inl err)
      with eq True inner inv show ?thesis by auto
    next
      case (Inr u)
      with eq True inner have "f e vw vh rows cols (Suc row) s1 = Some y" by simp
      from IH [OF this] inv show ?thesis by (blast intro: same_controller_trans)
    qed
  qed
qed

lemma flag_kept_refl: "flag_kept s s"
  by (auto simp: flag_kept_def intro: exI [of _ 0])

lemma flag_kept_trans:
  assumes "flag_kept s s1" and "flag_kept s1 s2"
  shows "flag_kept s s2"
proof -
  from assms obtain k1 k2 where
    "busy_at_await s1 = busy_at_await s @ replicate k1 (isCapturing s)"
    "busy_at_await s2 = busy_at_await s1 @ replicate k2 (isCapturing s1)"
    and flags: "isCapturing s1 = isCapturing s" "isCapturing s2 = isCapturing s1"
    by (auto simp: flag_kept_def)
  then have "busy_at_await s2 = busy_at_await s @ replicate (k1 + k2) (isCapturing s)"
    by (simp add: replicate_add)
  with flags show ?thesis
    unfolding flag_kept_def by metis
qed

lemma flag_kept_suspend: "flag_kept s (suspend s)"
  by (auto simp: flag_kept_def suspend_def intro: exI [of _ 1])

lemma flag_kept_wait: "flag_kept s (wait ms (scrollTo x y s))"
  by (auto simp: flag_kept_def wait_def scrollTo_def suspend_def intro: exI [of _ 1])

lemma flag_kept_captureVisibleArea: "flag_kept s (snd (captureVisibleArea e s))"
  by (auto simp: flag_kept_def captureVisibleArea_def suspend_def Let_def
      split: reply.splits option.splits intro: exI [of _ 1])

lemma flag_kept_drawImageToCanvas: "flag_kept s (snd (drawImageToCanvas e u x y s))"
  by (auto simp: flag_kept_def drawImageToCanvas_def suspend_def Let_def intro: exI [of _ 1])

lemma capture_tile_flag_kept:
  assumes "capture_tile e x y s = (r, s')"
  shows "flag_kept s s'"
proof -
  obtain r1 s1 where cap: "captureVisibleArea e (wait 100 (scrollTo x y s)) = (r1, s1)"
    by (cases "captureVisibleArea e (wait 100 (scrollTo x y s))")
  from flag_kept_captureVisibleArea [of "wait 100 (scrollTo x y s)" e] cap
  have "flag_kept (wait 100 (scrollTo x y s)) s1" by simp
  with flag_kept_wait have s1: "flag_kept s s1" by (rule flag_kept_trans)
  show ?thesis
  proof (cases r1)
    case (Inl err)
    with assms cap s1 show ?thesis by (simp add: capture_tile_def)
  next
    case (Inr u)
    with assms cap have "s' = snd (drawImageToCanvas e u x y s1)"
      by (simp add: capture_tile_def)
    with flag_kept_drawImageToCanvas have "flag_kept s1 s'" by simp
    with s1 show ?thesis by (rule flag_kept_trans)
  qed
qed

lemma capture_cols_flag_kept:
  assumes "capture_cols e vw vh cols row col s = Some y"
  shows "flag_kept s (snd y)"
proof (rule capture_cols.raw_induct
    [where P = "\<lambda>e vw vh cols row col s y. flag_kept s (snd y)", OF _ assms])
  fix f e vw vh cols row col s and y :: "(error + unit) \<times> state"
  assume IH: "\<And>e vw vh cols row col s y. f e vw vh cols row col s = Some y \<Longrightarrow>
      flag_kept s (snd y)"
    and eq: "(if js_less col cols
        then case capture_tile e (col * vw) (row * vh) s of
               (Inl err, s') \<Rightarrow> Some (Inl err, s')
             | (Inr u, s') \<Rightarrow> f e vw vh cols row (Suc col) s'
        else Some (Inr (), s)) = Some y"
  show "flag_kept s (snd y)"
  proof (cases "js_less col cols")
    case False
    with eq show ?thesis by (auto simp: flag_kept_refl)
  next
    case True
    obtain r s1 where tile: "capture_tile e (col * vw) (row * vh) s = (r, s1)"
      by (cases "capture_tile e (col * vw) (row * vh) s")
    note kept = capture_tile_flag_kept [OF tile]
    show ?thesis
    proof (cases r)
      case (Inl err)
      with eq True tile kept show ?thesis by auto
    next
      case (Inr u)
      with eq True tile have "f e vw vh cols row (Suc col) s1 = Some y" by simp
      from kept IH [OF this] show ?thesis by (rule flag_kept_trans)
    qed
  qed
qed

lemma capture_rows_flag_kept:
  assumes "capture_rows e vw vh rows cols row s = Some y"
  shows "flag_kept s (snd y)"
proof (rule capture_rows.raw_induct
    [where P = "\<lambda>e vw vh rows cols row s y. flag_kept s (snd y)", OF _ assms])
  fix f e vw vh rows cols row s and y :: "(error + unit) \<times> state"
  assume IH: "\<And>e vw vh rows cols row s y. f e vw vh rows cols row s = Some y \<Longrightarrow>
      flag_kept s (snd y)"
    and eq: "(if js_less row rows
        then case capture_cols e vw vh cols row 0 s of
               None \<Rightarrow> None
             | Some (Inl err, s') \<Rightarrow> Some (Inl err, s')
             | Some (Inr u, s') \<Rightarrow> f e vw vh rows cols (Suc row) s'
        else Some (Inr (), s)) = Some y"
  show "flag_kept s (snd y)"
  proof (cases "js_less row rows")
    case False
    with eq show ?thesis by (auto simp: flag_kept_refl)
  next
    case True
    with eq obtain r s1 where inner: "capture_cols e vw vh cols row 0 s = Some (r, s1)"
      by (cases "capture_cols e vw vh cols row 0 s") auto
    from capture_cols_flag_kept [OF inner] have kept: "flag_kept s s1" by simp
    show ?thesis
    proof (cases r)
      case (Inl err)
      with eq True inner kept show ?thesis by auto
    next
      case (Inr u)
      with eq True inner have "f e vw vh rows cols (Suc row) s1 = Some y" by simp
      from kept IH [OF this] show ?thesis by (rule flag_kept_trans)
    qed
  qed
qed

lemma capture_cols_returns:
  "\<exists>y. capture_cols e vw vh (Finite cols) row col s = Some y"
proof (induction "cols - col" arbitrary: col s)
  case 0
  then show ?case by (subst capture_cols.simps) simp
next
  case (Suc m)
  then have lt: "col < cols" and m: "m = cols - Suc col" by arith+
  obtain r s1 where tile: "capture_tile e (col * vw) (row * vh) s = (r, s1)"
    by (cases "capture_tile e (col * vw) (row * vh) s")
  show ?case
  proof (cases r)
    case (Inl err)
    with lt tile show ?thesis by (subst capture_cols.simps) simp
  next
    case (Inr u)
    from Suc.hyps(1) [OF m] obtain y where "capture_cols e vw vh (Finite cols) row (Suc col) s1 = Some y"
      by blast
    with Inr lt tile show ?thesis by (subst capture_cols.simps) simp
  qed
qed

lemma capture_rows_returns:
  "\<exists>y. capture_rows e vw vh (Finite rows) (Finite cols) row s = Some y"
proof (induction "rows - row" arbitrary: row s)
  case 0
  then show ?case by (subst capture_rows.simps) simp
next
  case (Suc m)
  then have lt: "row < rows" and m: "m = rows - Suc row" by arith+
  obtain r s1 where inner: "capture_cols e vw vh (Finite cols) row 0 s = Some (r, s1)"
    using capture_cols_returns [of e vw vh cols row 0 s] by auto
  show ?case
  proof (cases r)
    case (Inl err)
    with lt inner show ?thesis by (subst capture_rows.simps) simp
  next
    case (Inr u)
    from Suc.hyps(1) [OF m] obtain y where "capture_rows e vw vh (Finite rows) (Finite cols) (Suc row) s1 = Some y"
      by blast
    with Inr lt inner show ?thesis by (subst capture_rows.simps) simp
  qed
qed

lemma captureFullPage_returns:
  assumes "0 < innerWidth e" and "0 < innerHeight e"
  shows "\<exists>y. captureFullPage e options s = Some y"
proof (cases "isCapturing s")
  case True
  then show ?thesis by (simp add: captureFullPage_def)
next
  case False
  let ?s1 = "s\<lparr>isCapturing := True, canvas := Some \<lparr>width = pageWidth e, height = pageHeight e, drawn = []\<rparr>,
      ctx := getContext_ok e\<rparr>"
  obtain r s2 where loop: "capture_rows e (innerWidth e) (innerHeight e)
      (Finite (nat \<lceil>real (pageHeight e) / real (innerHeight e)\<rceil>))
      (Finite (nat \<lceil>real (pageWidth e) / real (innerWidth e)\<rceil>)) 0 ?s1 = Some (r, s2)"
    using capture_rows_returns by (metis surj_pair)
  have "\<exists>y. captureFullPage_try e options (s\<lparr>isCapturing := True\<rparr>) = Some y"
    using loop assms
    by (cases r) (auto simp: captureFullPage_try_def Let_def ceil_div_pos split: option.splits)
  then show ?thesis
    using False by (auto simp: captureFullPage_def)
qed

text \<open>Against \<open>Infinity\<close> rows the outer loop goes on for as long as the tiles succeed.\<close>

lemma capture_rows_Infinity_never_returns:
  assumes "ctx s" and "\<forall>n. tile_ok e n"
  shows "capture_rows e vw vh Infinity (Finite cols) row s = None"
proof (rule ccontr)
  assume "capture_rows e vw vh Infinity (Finite cols) row s \<noteq> None"
  then obtain y where run: "capture_rows e vw vh Infinity (Finite cols) row s = Some y" by blast
  have "rows = Infinity \<longrightarrow> cs = Finite cols \<longrightarrow> ctx s \<longrightarrow> (\<forall>n. tile_ok e n) \<longrightarrow> False"
    if "capture_rows e vw vh rows cs row s = Some y" for rows cs
    using that
  proof (rule capture_rows.raw_induct
      [where P = "\<lambda>e vw vh rows cs row s y.
          rows = Infinity \<longrightarrow> cs = Finite cols \<longrightarrow> ctx s \<longrightarrow> (\<forall>n. tile_ok e n) \<longrightarrow> False", rotated])
    fix f e vw vh rows cs row s and y :: "(error + unit) \<times> state"
    assume IH: "\<And>e vw vh rows cs row s y. f e vw vh rows cs row s = Some y \<Longrightarrow>
        rows = Infinity \<longrightarrow> cs = Finite cols \<longrightarrow> ctx s \<longrightarrow> (\<forall>n. tile_ok e n) \<longrightarrow> False"
      and eq: "(if js_less row rows
          then case capture_cols e vw vh cs row 0 s of
                 None \<Rightarrow> None
               | Some (Inl err, s') \<Rightarrow> Some (Inl err, s')
               | Some (Inr u, s') \<Rightarrow> f e vw vh rows cs (Suc row) s'
          else Some (Inr (), s)) = Some y"
    show "rows = Infinity \<longrightarrow> cs = Finite cols \<longrightarrow> ctx s \<longrightarrow> (\<forall>n. tile_ok e n) \<longrightarrow> False"
    proof (intro impI)
      assume rows: "rows = Infinity" and cs: "cs = Finite cols" and c: "ctx s" and ok: "\<forall>n. tile_ok e n"
      from ok have "\<forall>j < cols - 0. tile_ok e (requests s + j)" by simp
      from capture_cols_ok [OF c this, of vw vh row] obtain s1 where
        inner: "capture_cols e vw vh (Finite cols) row 0 s = Some (Inr (), s1)" and c1: "ctx s1"
        using c by auto
      from eq rows cs inner have "f e vw vh rows cs (Suc row) s1 = Some y" by simp
      from IH [OF this] rows cs c1 ok show False by blast
    qed
  qed
  from this [OF run] assms show False by blast
qed

lemma concat_concat_map: "concat (concat (map (\<lambda>i. map (g i) ys) xs)) = concat (map (\<lambda>i. concat (map (g i) ys)) xs)"
  by (induction xs) simp_all

section \<open>The whole of captureFullPage\<close>

lemmas run_defs = captureFullPage_def captureFullPage_try_def captureFullPage_finally_def
  pageHeight_def pageWidth_def ceil_div_def capture_rows.simps capture_cols.simps capture_tile_def
  captureVisibleArea_def scrollTo_def wait_def drawImageToCanvas_def suspend_def toDataURL_def

lemma same_controller_canvas:
  assumes "same_controller s s'" and "canvas s = Some c"
  shows "\<exists>c'. canvas s' = Some c' \<and> width c' = width c \<and> height c' = height c"
  using assms by (cases "canvas s'") (auto simp: same_controller_def)

lemma captureFullPage_try_inv:
  assumes "captureFullPage_try e options s = Some (r, s')"
  shows "isCapturing s' = isCapturing s
    \<and> (\<exists>c. canvas s' = Some c \<and> width c = pageWidth e \<and> height c = pageHeight e)
    \<and> r \<noteq> Inl AlreadyInProgress
    \<and> (\<forall>img. r = Inr img \<longrightarrow>
          width (surface img) = pageWidth e \<and> height (surface img) = pageHeight e
          \<and> scrollX s' = scrollX s \<and> scrollY s' = scrollY s)"
proof (cases "getContext_ok e")
  case False
  with assms show ?thesis
    by (auto simp: captureFullPage_try_def Let_def)
next
  case True
  let ?c = "\<lparr>width = pageWidth e, height = pageHeight e, drawn = []\<rparr>"
  let ?s1 = "s\<lparr>canvas := Some ?c, ctx := getContext_ok e\<rparr>"
  let ?loop = "capture_rows e (innerWidth e) (innerHeight e)
      (ceil_div (pageHeight e) (innerHeight e)) (ceil_div (pageWidth e) (innerWidth e)) 0 ?s1"
  from assms True obtain r2 s2 where loop: "?loop = Some (r2, s2)"
    by (cases ?loop) (auto simp: captureFullPage_try_def Let_def)
  from capture_rows_inv [OF loop]
  have same: "same_controller ?s1 s2" and r2: "r2 \<noteq> Inl AlreadyInProgress" by simp_all
  from same_controller_canvas [OF same] obtain c2 where
    c2: "canvas s2 = Some c2" "width c2 = pageWidth e" "height c2 = pageHeight e"
    by auto
  from same have flag: "isCapturing s2 = isCapturing s" by (simp add: same_controller_def)
  show ?thesis
  proof (cases r2)
    case (Inl err)
    with assms True loop r2 have "r = Inl err" "s' = s2"
      by (auto simp: captureFullPage_try_def Let_def)
    with Inl r2 c2 flag show ?thesis by auto
  next
    case (Inr u)
    with assms True loop c2 have "r = Inr (toDataURL options c2)"
      and "s' = scrollTo (scrollX s) (scrollY s) s2"
      by (auto simp: captureFullPage_try_def Let_def scrollTo_def)
    with c2 flag show ?thesis
      by (auto simp: scrollTo_def toDataURL_def Let_def)
  qed
qed

lemma captureFullPage_finally_fields:
  "isCapturing (captureFullPage_finally s) = False"
  "canvas (captureFullPage_finally s) = None"
  "canvas s \<noteq> None \<Longrightarrow> ctx (captureFullPage_finally s) = False"
  "scrollX (captureFullPage_finally s) = scrollX s"
  "scrollY (captureFullPage_finally s) = scrollY s"
  by (cases "canvas s"; simp add: captureFullPage_finally_def Let_def)+

lemma captureFullPage_admitted:
  assumes "\<not> isCapturing s" and "captureFullPage e options s = Some (r, s')"
  obtains s1 where "captureFullPage_try e options (s\<lparr>isCapturing := True\<rparr>) = Some (r, s1)"
    and "s' = captureFullPage_finally s1"
  using assms
  by (cases "captureFullPage_try e options (s\<lparr>isCapturing := True\<rparr>)")
    (auto simp: captureFullPage_def)

lemma captureFullPage_try_flag_kept:
  assumes "captureFullPage_try e options s = Some (r, s')"
  shows "flag_kept s s'"
proof (cases "getContext_ok e")
  case False
  with assms show ?thesis
    by (auto simp: captureFullPage_try_def Let_def flag_kept_def intro: exI [of _ 0])
next
  case True
  let ?c = "\<lparr>width = pageWidth e, height = pageHeight e, drawn = []\<rparr>"
  let ?s1 = "s\<lparr>canvas := Some ?c, ctx := getContext_ok e\<rparr>"
  let ?loop = "capture_rows e (innerWidth e) (innerHeight e)
      (ceil_div (pageHeight e) (innerHeight e)) (ceil_div (pageWidth e) (innerWidth e)) 0 ?s1"
  from assms True obtain r2 s2 where loop: "?loop = Some (r2, s2)"
    by (cases ?loop) (auto simp: captureFullPage_try_def Let_def)
  have "flag_kept s ?s1"
    by (auto simp: flag_kept_def intro: exI [of _ 0])
  moreover from capture_rows_flag_kept [OF loop] have "flag_kept ?s1 s2" by simp
  ultimately have kept: "flag_kept s s2" by (rule flag_kept_trans)
  have restored: "flag_kept s2 (scrollTo x y s2)" for x y
    by (auto simp: flag_kept_def scrollTo_def intro: exI [of _ 0])
  show ?thesis
  proof (cases r2)
    case (Inl err)
    with assms True loop have "s' = s2"
      by (auto simp: captureFullPage_try_def Let_def)
    with kept show ?thesis by simp
  next
    case (Inr u)
    with assms True loop have "s' = scrollTo (scrollX s) (scrollY s) s2"
      by (auto simp: captureFullPage_try_def Let_def scrollTo_def split: option.splits)
    with kept restored show ?thesis by (auto intro: flag_kept_trans)
  qed
qed

lemma captureFullPage_finally_awaits:
  "busy_at_await (captureFullPage_finally s) = busy_at_await s"
  by (cases "canvas s") (simp_all add: captureFullPage_finally_def Let_def)

lemma captureFullPage_awaits_flagged:
  assumes "\<not> isCapturing s" and "captureFullPage e options s = Some (r, s')"
  shows "\<exists>k. busy_at_await s' = busy_at_await s @ replicate k True"
proof -
  from assms obtain s1 where
    body: "captureFullPage_try e options (s\<lparr>isCapturing := True\<rparr>) = Some (r, s1)"
    and fin: "s' = captureFullPage_finally s1"
    by (blast elim: captureFullPage_admitted)
  from captureFullPage_try_flag_kept [OF body] show ?thesis
    by (simp add: flag_kept_def fin captureFullPage_finally_awaits)
qed

lemma unanswered_run:
  "captureFullPage page_unanswered default_options idle_state =
     Some (Inl (Message ''Unknown action''),
           \<lparr>isCapturing = False, canvas = None, ctx = False, scrollX = 0, scrollY = 0,
            calls = [ScrollTo 0 0, Wait 100, CaptureVisibleTab], requests = 1,
            busy_at_await = [True, True]\<rparr>)"
  by (simp add: run_defs page_unanswered_def page_1000_def idle_state_def default_options_def)

lemma unanswered_body:
  "captureFullPage_try page_unanswered default_options (idle_state\<lparr>isCapturing := True\<rparr>) =
     Some (Inl (Message ''Unknown action''),
           \<lparr>isCapturing = True, canvas = Some \<lparr>width = 1000, height = 1000, drawn = []\<rparr>,
            ctx = True, scrollX = 0, scrollY = 0,
            calls = [ScrollTo 0 0, Wait 100, CaptureVisibleTab], requests = 1,
            busy_at_await = [True, True]\<rparr>)"
  by (simp add: run_defs page_unanswered_def page_1000_def idle_state_def default_options_def)

lemma busy_state_in_flight:
  "busy_state = wait 100 (scrollTo 400 0 (snd (capture_tile page_1000 0 0
     (idle_state\<lparr>isCapturing := True,
        canvas := Some \<lparr>width = 1000, height = 1000, drawn = []\<rparr>, ctx := True,
        scrollY := 0\<rparr>))))"
  by (simp add: busy_state_def idle_state_def page_1000_def capture_tile_def
      captureVisibleArea_def scrollTo_def wait_def drawImageToCanvas_def suspend_def)

lemma Max_five: "Max {a, b, c, d, e :: nat} = max a (max b (max c (max d e)))"
  by simp

lemma run_1920:
  "captureFullPage page_1920 default_options idle_state =
     Some (Inr \<lparr>mime = ''image/png'', quality = 9 / 10,
                surface = \<lparr>width = 1920, height = 3000,
                  drawn = [(''data:image/png;tile'', 0, 0), (''data:image/png;tile'', 0, 1000),
                           (''data:image/png;tile'', 0, 2000)]\<rparr>\<rparr>,
           \<lparr>isCapturing = False, canvas = None, ctx = False, scrollX = 0, scrollY = 250,
            calls = [ScrollTo 0 0, Wait 100, CaptureVisibleTab, DrawImage ''data:image/png;tile'' 0 0,
                     ScrollTo 0 1000, Wait 100, CaptureVisibleTab, DrawImage ''data:image/png;tile'' 0 1000,
                     ScrollTo 0 2000, Wait 100, CaptureVisibleTab, DrawImage ''data:image/png;tile'' 0 2000,
                     ScrollTo 0 250],
            requests = 3,
            busy_at_await = [True, True, True, True, True, True, True, True, True]\<rparr>)"
  by (simp add: run_defs page_1920_def idle_state_def default_options_def)

text \<open>
  With a viewport of height zero on a page of positive height, \<open>rows\<close> is \<open>Infinity\<close>:
  a session whose tiles all succeed never returns.
\<close>

lemma zero_viewport_height_never_returns:
  assumes "\<not> isCapturing s" and "getContext_ok e"
    and "innerHeight e = 0" and "0 < pageHeight e" and "0 < innerWidth e"
    and "\<forall>n. tile_ok e n"
  shows "captureFullPage e options s = None"
proof -
  let ?s1 = "s\<lparr>isCapturing := True,
      canvas := Some \<lparr>width = pageWidth e, height = pageHeight e, drawn = []\<rparr>,
      ctx := getContext_ok e\<rparr>"
  have "ctx ?s1" using assms(2) by simp
  from capture_rows_Infinity_never_returns [OF this assms(6)]
  have "capture_rows e (innerWidth e) 0 Infinity
      (Finite (nat \<lceil>real (pageWidth e) / real (innerWidth e)\<rceil>)) 0 ?s1 = None" .
  then show ?thesis
    using assms
    by (simp add: captureFullPage_def captureFullPage_try_def Let_def ceil_div_def)
qed

lemma successful_capture_restores_scroll:
  assumes "captureFullPage e options s = Some (Inr img, s')"
  shows "scrollX s' = scrollX s \<and> scrollY s' = scrollY s"
proof -
  from assms have idle: "\<not> isCapturing s"
    by (auto simp: captureFullPage_def)
  from idle assms obtain s1 where
    body: "captureFullPage_try e options (s\<lparr>isCapturing := True\<rparr>) = Some (Inr img, s1)"
    and fin: "s' = captureFullPage_finally s1"
    by (blast elim: captureFullPage_admitted)
  from captureFullPage_try_inv [OF body] show ?thesis
    by (simp add: fin captureFullPage_finally_fields)
qed

section \<open>Claims about full-page capture\<close>

text \<open>
  C2. When the viewport is not empty, a context is available and every tile request is
  answered with an image that loads, full-page capture returns an image after exactly
  \<open>ceil(pageHeight / viewportHeight) * ceil(pageWidth / viewportWidth)\<close> tile requests.
  Its calls are, for each row from zero upwards and within a row for each column from
  zero upwards: scroll to \<open>(col * viewportWidth, row * viewportHeight)\<close>, wait 100 ms,
  request the visible tab, draw the answer at that same offset; then one last scroll
  back to where the window was. The canvas holds the tiles in that order at those
  offsets.
\<close>

theorem full_page_tiles_row_major:
  assumes "\<not> isCapturing s" and "getContext_ok e"
    and "0 < innerWidth e" and "0 < innerHeight e"
    and "rows = nat \<lceil>real (pageHeight e) / real (innerHeight e)\<rceil>"
    and "cols = nat \<lceil>real (pageWidth e) / real (innerWidth e)\<rceil>"
    and "\<forall>k < rows * cols. tile_ok e (requests s + k)"
  shows "\<exists>r s'. captureFullPage e options s = Some (Inr r, s')
    \<and> requests s' = requests s + rows * cols
    \<and> calls s' = calls s
        @ concat [tile_events e (requests s + row * cols + col) (col * innerWidth e) (row * innerHeight e).
                  row \<leftarrow> [0..<rows], col \<leftarrow> [0..<cols]]
        @ [ScrollTo (scrollX s) (scrollY s)]
    \<and> drawn (surface r) =
        [(tile_url e (requests s + row * cols + col), col * innerWidth e, row * innerHeight e).
         row \<leftarrow> [0..<rows], col \<leftarrow> [0..<cols]]"
proof -
  from captureFullPage_ok [OF assms, of options] obtain s' where
    "captureFullPage e options s =
      Some (Inr (toDataURL options \<lparr>width = pageWidth e, height = pageHeight e,
        drawn = concat (map (\<lambda>i. map (\<lambda>j.
          (tile_url e (requests s + i * cols + j), j * innerWidth e, i * innerHeight e)) [0..<cols]) [0..<rows])\<rparr>), s')"
    and "requests s' = requests s + rows * cols"
    and "calls s' = calls s @ concat (map (\<lambda>i. concat (map (\<lambda>j.
          tile_events e (requests s + i * cols + j) (j * innerWidth e) (i * innerHeight e)) [0..<cols])) [0..<rows])
        @ [ScrollTo (scrollX s) (scrollY s)]"
    by blast
  then show ?thesis
    by (simp add: concat_concat_map toDataURL_def Let_def)
qed

text \<open>
  The page of 1000 by 1000 in a viewport of 400 by 400: nine tiles, in the order
  \<open>(0,0), (0,1), (0,2), (1,0), \<dots>, (2,2)\<close> of \<open>(row, col)\<close>.
\<close>

theorem full_page_tiles_row_major_witness:
  "\<exists>r s'. captureFullPage page_1000 default_options idle_state = Some (Inr r, s')
    \<and> requests s' = 9
    \<and> calls s' =
       [ScrollTo 0 0, Wait 100, CaptureVisibleTab, DrawImage ''data:image/png;tile'' 0 0,
        ScrollTo 400 0, Wait 100, CaptureVisibleTab, DrawImage ''data:image/png;tile'' 400 0,
        ScrollTo 800 0, Wait 100, CaptureVisibleTab, DrawImage ''data:image/png;tile'' 800 0,
        ScrollTo 0 400, Wait 100, CaptureVisibleTab, DrawImage ''data:image/png;tile'' 0 400,
        ScrollTo 400 400, Wait 100, CaptureVisibleTab, DrawImage ''data:image/png;tile'' 400 400,
        ScrollTo 800 400, Wait 100, CaptureVisibleTab, DrawImage ''data:image/png;tile'' 800 400,
        ScrollTo 0 800, Wait 100, CaptureVisibleTab, DrawImage ''data:image/png;tile'' 0 800,
        ScrollTo 400 800, Wait 100, CaptureVisibleTab, DrawImage ''data:image/png;tile'' 400 800,
        ScrollTo 800 800, Wait 100, CaptureVisibleTab, DrawImage ''data:image/png;tile'' 800 800,
        ScrollTo 0 250]"
proof -
  have upt3: "[0..<3::nat] = [0, 1, 2]" by code_simp
  have h1: "\<not> isCapturing idle_state" by (simp add: idle_state_def)
  have h2: "getContext_ok page_1000" by (simp add: page_1000_def)
  have h3: "0 < innerWidth page_1000" by (simp add: page_1000_def)
  have h4: "0 < innerHeight page_1000" by (simp add: page_1000_def)
  have h5: "3 = nat \<lceil>real (pageHeight page_1000) / real (innerHeight page_1000)\<rceil>"
    by (simp add: page_1000_def pageHeight_def)
  have h6: "3 = nat \<lceil>real (pageWidth page_1000) / real (innerWidth page_1000)\<rceil>"
    by (simp add: page_1000_def pageWidth_def)
  have h7: "\<forall>k < 3 * 3. tile_ok page_1000 (requests idle_state + k)"
    by (simp add: page_1000_def tile_ok_def)
  have url: "\<And>n. tile_url page_1000 n = ''data:image/png;tile''"
    by (simp add: page_1000_def tile_url_def)
  have vp: "innerWidth page_1000 = 400" "innerHeight page_1000 = 400"
    by (simp_all add: page_1000_def)
  have start: "requests idle_state = 0" "calls idle_state = []" "scrollX idle_state = 0"
    "scrollY idle_state = 250"
    by (simp_all add: idle_state_def)
  from full_page_tiles_row_major [OF h1 h2 h3 h4 h5 h6 h7, of default_options]
  obtain r s' where run: "captureFullPage page_1000 default_options idle_state = Some (Inr r, s')"
    and req: "requests s' = requests idle_state + 3 * 3"
    and cl: "calls s' = calls idle_state
        @ concat [tile_events page_1000 (requests idle_state + row * 3 + col)
                    (col * innerWidth page_1000) (row * innerHeight page_1000).
                  row \<leftarrow> [0..<3], col \<leftarrow> [0..<3]]
        @ [ScrollTo (scrollX idle_state) (scrollY idle_state)]"
    by blast
  from req have "requests s' = 9" by (simp add: start)
  moreover from cl have "calls s' =
       [ScrollTo 0 0, Wait 100, CaptureVisibleTab, DrawImage ''data:image/png;tile'' 0 0,
        ScrollTo 400 0, Wait 100, CaptureVisibleTab, DrawImage ''data:image/png;tile'' 400 0,
        ScrollTo 800 0, Wait 100, CaptureVisibleTab, DrawImage ''data:image/png;tile'' 800 0,
        ScrollTo 0 400, Wait 100, CaptureVisibleTab, DrawImage ''data:image/png;tile'' 0 400,
        ScrollTo 400 400, Wait 100, CaptureVisibleTab, DrawImage ''data:image/png;tile'' 400 400,
        ScrollTo 800 400, Wait 100, CaptureVisibleTab, DrawImage ''data:image/png;tile'' 800 400,
        ScrollTo 0 800, Wait 100, CaptureVisibleTab, DrawImage ''data:image/png;tile'' 0 800,
        ScrollTo 400 800, Wait 100, CaptureVisibleTab, DrawImage ''data:image/png;tile'' 400 800,
        ScrollTo 800 800, Wait 100, CaptureVisibleTab, DrawImage ''data:image/png;tile'' 800 800,
        ScrollTo 0 250]"
    unfolding url vp start tile_events_def upt3 by simp
  ultimately show ?thesis using run by blast
qed

text \<open>
  C3. The claim is that the scroll position after a session equals the position at its
  start, whether the session succeeds or fails. The code scrolls back only after the
  loop (line 108); the \<open>finally\<close> block does not. On the page of 1000 by 1000, scrolled
  down by 250, a session whose first tile request is refused ends with the window at
  \<open>(0, 0)\<close>, the offset of that tile.
\<close>

theorem failed_capture_leaves_scroll:
  "captureFullPage page_unanswered default_options idle_state =
     Some (Inl (Message ''Unknown action''),
           \<lparr>isCapturing = False, canvas = None, ctx = False, scrollX = 0, scrollY = 0,
            calls = [ScrollTo 0 0, Wait 100, CaptureVisibleTab], requests = 1,
            busy_at_await = [True, True]\<rparr>)
   \<and> scrollY idle_state = 250"
  by (simp add: run_defs page_unanswered_def page_1000_def idle_state_def default_options_def)

text \<open>
  C4. A session of full-page capture, that is an invocation that finds \<open>isCapturing\<close>
  clear and sets it, ends on every exit path (an image returned or an error thrown) with
  \<open>isCapturing\<close> false and with \<open>canvas\<close> and \<open>ctx\<close> null, so that no canvas stays
  referenced after it. An invocation that finds the flag set starts no session: it is
  rejected before the \<open>try\<close> and leaves the controller, which belongs to the session
  in flight, as it was. With a non-empty viewport every invocation ends.
\<close>

theorem admitted_capture_releases:
  "(\<not> isCapturing s \<and> captureFullPage e options s = Some (r, s')
      \<longrightarrow> \<not> isCapturing s' \<and> canvas s' = None \<and> \<not> ctx s')
   \<and> (isCapturing s \<longrightarrow> captureFullPage e options s = Some (Inl AlreadyInProgress, s))
   \<and> (0 < innerWidth e \<and> 0 < innerHeight e \<longrightarrow> (\<exists>y. captureFullPage e options s = Some y))"
proof (intro conjI impI)
  assume a: "\<not> isCapturing s \<and> captureFullPage e options s = Some (r, s')"
  then obtain s1 where body: "captureFullPage_try e options (s\<lparr>isCapturing := True\<rparr>) = Some (r, s1)"
    and fin: "s' = captureFullPage_finally s1"
    by (blast elim: captureFullPage_admitted)
  from captureFullPage_try_inv [OF body] have "canvas s1 \<noteq> None" by auto
  then show "\<not> isCapturing s'" "canvas s' = None" "\<not> ctx s'"
    by (simp_all add: fin captureFullPage_finally_fields)
next
  assume "isCapturing s"
  then show "captureFullPage e options s = Some (Inl AlreadyInProgress, s)"
    by (simp add: captureFullPage_def)
next
  assume "0 < innerWidth e \<and> 0 < innerHeight e"
  then show "\<exists>y. captureFullPage e options s = Some y"
    using captureFullPage_returns [of e options s] by blast
qed

theorem admitted_capture_releases_witness:
  "\<not> isCapturing idle_state
   \<and> (\<exists>s'. captureFullPage page_unanswered default_options idle_state
          = Some (Inl (Message ''Unknown action''), s')
        \<and> \<not> isCapturing s' \<and> canvas s' = None \<and> \<not> ctx s')
   \<and> isCapturing busy_state
   \<and> captureFullPage page_1000 default_options busy_state = Some (Inl AlreadyInProgress, busy_state)
   \<and> 0 < innerWidth page_1000 \<and> 0 < innerHeight page_1000
   \<and> (\<exists>y. captureFullPage page_1000 default_options idle_state = Some y)"
proof -
  have idle: "\<not> isCapturing idle_state" by (simp add: idle_state_def)
  have busy: "isCapturing busy_state" by (simp add: busy_state_def)
  have vp: "0 < innerWidth page_1000 \<and> 0 < innerHeight page_1000" by (simp add: page_1000_def)
  from admitted_capture_releases [of idle_state page_unanswered default_options
      "Inl (Message ''Unknown action'')"] idle unanswered_run
  have "\<exists>s'. captureFullPage page_unanswered default_options idle_state
          = Some (Inl (Message ''Unknown action''), s')
        \<and> \<not> isCapturing s' \<and> canvas s' = None \<and> \<not> ctx s'"
    by blast
  moreover from admitted_capture_releases [of busy_state page_1000 default_options
      "Inl AlreadyInProgress" busy_state] busy
  have "captureFullPage page_1000 default_options busy_state = Some (Inl AlreadyInProgress, busy_state)"
    by blast
  moreover from admitted_capture_releases [of idle_state page_1000 default_options
      "Inl AlreadyInProgress" idle_state] vp
  have "\<exists>y. captureFullPage page_1000 default_options idle_state = Some y" by blast
  ultimately show ?thesis using idle busy vp by blast
qed

text \<open>
  C5. Full-page capture fails with the already-in-progress error, at once and without
  touching the page or the controller, exactly when \<open>isCapturing\<close> is set at the
  invocation. A session that was admitted holds the flag at every one of its \<open>await\<close>s,
  three for each tile that is drawn: a second invocation that arrives while the first
  is suspended there finds the flag set and is rejected, and as the rejection changes
  nothing the first session goes on as if it had not happened. Nothing is queued: the
  rejected invocation ends with the error.
\<close>

theorem already_in_progress_iff_busy:
  "(isCapturing s \<longrightarrow> captureFullPage e options s = Some (Inl AlreadyInProgress, s))
   \<and> (\<not> isCapturing s \<longrightarrow> (\<forall>s'. captureFullPage e options s \<noteq> Some (Inl AlreadyInProgress, s')))
   \<and> (\<not> isCapturing s \<and> captureFullPage e options s = Some (r, s')
        \<longrightarrow> (\<exists>k. busy_at_await s' = busy_at_await s @ replicate k True))
   \<and> (\<not> isCapturing s \<and> captureFullPage e options s = Some (r, s')
        \<and> isCapturing t \<in> set (drop (length (busy_at_await s)) (busy_at_await s'))
        \<longrightarrow> captureFullPage e' options' t = Some (Inl AlreadyInProgress, t))
   \<and> (\<not> isCapturing s \<and> getContext_ok e \<and> 0 < innerWidth e \<and> 0 < innerHeight e
        \<and> (\<forall>k < nat \<lceil>real (pageHeight e) / real (innerHeight e)\<rceil>
                  * nat \<lceil>real (pageWidth e) / real (innerWidth e)\<rceil>. tile_ok e (requests s + k))
        \<longrightarrow> (\<exists>img s'. captureFullPage e options s = Some (Inr img, s')
              \<and> busy_at_await s' = busy_at_await s
                  @ replicate (3 * (nat \<lceil>real (pageHeight e) / real (innerHeight e)\<rceil>
                                    * nat \<lceil>real (pageWidth e) / real (innerWidth e)\<rceil>)) True))"
proof -
  have rejected: "captureFullPage e options s = Some (Inl AlreadyInProgress, s)"
    if "isCapturing s" for e options s
    using that by (simp add: captureFullPage_def)
  have admitted: "captureFullPage e options s \<noteq> Some (Inl AlreadyInProgress, s')"
    if idle: "\<not> isCapturing s" for s'
  proof
    assume "captureFullPage e options s = Some (Inl AlreadyInProgress, s')"
    with idle obtain s1 where
      "captureFullPage_try e options (s\<lparr>isCapturing := True\<rparr>) = Some (Inl AlreadyInProgress, s1)"
      by (blast elim: captureFullPage_admitted)
    from captureFullPage_try_inv [OF this] show False by simp
  qed
  have held: "\<exists>k. busy_at_await s' = busy_at_await s @ replicate k True"
    if "\<not> isCapturing s \<and> captureFullPage e options s = Some (r, s')"
    using that captureFullPage_awaits_flagged by blast
  have second: "captureFullPage e' options' t = Some (Inl AlreadyInProgress, t)"
    if run: "\<not> isCapturing s \<and> captureFullPage e options s = Some (r, s')
        \<and> isCapturing t \<in> set (drop (length (busy_at_await s)) (busy_at_await s'))"
  proof -
    from run held obtain k where "busy_at_await s' = busy_at_await s @ replicate k True"
      by blast
    with run have "isCapturing t \<in> set (replicate k True)" by simp
    then have "isCapturing t" by (auto simp: set_replicate_conv_if split: if_splits)
    then show ?thesis by (rule rejected)
  qed
  have counted: "\<exists>img s'. captureFullPage e options s = Some (Inr img, s')
              \<and> busy_at_await s' = busy_at_await s
                  @ replicate (3 * (nat \<lceil>real (pageHeight e) / real (innerHeight e)\<rceil>
                                    * nat \<lceil>real (pageWidth e) / real (innerWidth e)\<rceil>)) True"
    if h: "\<not> isCapturing s \<and> getContext_ok e \<and> 0 < innerWidth e \<and> 0 < innerHeight e
        \<and> (\<forall>k < nat \<lceil>real (pageHeight e) / real (innerHeight e)\<rceil>
                  * nat \<lceil>real (pageWidth e) / real (innerWidth e)\<rceil>. tile_ok e (requests s + k))"
  proof -
    from h have "\<not> isCapturing s" "getContext_ok e" "0 < innerWidth e" "0 < innerHeight e"
      "\<forall>k < nat \<lceil>real (pageHeight e) / real (innerHeight e)\<rceil>
                  * nat \<lceil>real (pageWidth e) / real (innerWidth e)\<rceil>. tile_ok e (requests s + k)"
      by simp_all
    from captureFullPage_ok [OF this(1-4) refl refl this(5), of options]
    show ?thesis by blast
  qed
  from rejected [of s e options] admitted held second counted show ?thesis
    by blast
qed

text \<open>
  On the page of 1000 by 1000 a session that starts at rest makes 27 \<open>await\<close>s, all with
  the flag set, and a second invocation at any state with the flag so set is rejected;
  the session whose first tile is refused makes two, with the flag set as well.
\<close>

theorem already_in_progress_iff_busy_witness:
  "\<not> isCapturing idle_state \<and> busy_at_await idle_state = []
   \<and> getContext_ok page_1000 \<and> 0 < innerWidth page_1000 \<and> 0 < innerHeight page_1000
   \<and> (\<exists>img s'. captureFullPage page_1000 default_options idle_state = Some (Inr img, s')
        \<and> busy_at_await s' = replicate 27 True)
   \<and> captureFullPage page_1000 default_options idle_state \<noteq> Some (Inl AlreadyInProgress, idle_state)
   \<and> (\<exists>s'. captureFullPage page_unanswered default_options idle_state
          = Some (Inl (Message ''Unknown action''), s')
        \<and> busy_at_await s' = [True, True]
        \<and> isCapturing busy_state \<in> set (drop (length (busy_at_await idle_state)) (busy_at_await s')))
   \<and> isCapturing busy_state
   \<and> captureFullPage page_1000 default_options busy_state = Some (Inl AlreadyInProgress, busy_state)"
proof -
  have idle: "\<not> isCapturing idle_state" "busy_at_await idle_state = []"
    by (simp_all add: idle_state_def)
  have busy: "isCapturing busy_state" by (simp add: busy_state_def)
  have page: "getContext_ok page_1000" "0 < innerWidth page_1000" "0 < innerHeight page_1000"
    by (simp_all add: page_1000_def)
  have rows: "nat \<lceil>real (pageHeight page_1000) / real (innerHeight page_1000)\<rceil> = 3"
    by (simp add: page_1000_def pageHeight_def)
  have cols: "nat \<lceil>real (pageWidth page_1000) / real (innerWidth page_1000)\<rceil> = 3"
    by (simp add: page_1000_def pageWidth_def)
  have tiles: "\<forall>k < 9. tile_ok page_1000 (requests idle_state + k)"
    by (simp add: page_1000_def tile_ok_def)
  note first = already_in_progress_iff_busy
    [of idle_state page_1000 default_options _ _ busy_state page_1000 default_options]
  from first idle page tiles
  have counted: "\<exists>img s'. captureFullPage page_1000 default_options idle_state = Some (Inr img, s')
        \<and> busy_at_await s' = replicate 27 True"
    by (simp add: rows cols)
  from first idle
  have admitted: "captureFullPage page_1000 default_options idle_state
      \<noteq> Some (Inl AlreadyInProgress, idle_state)"
    by blast
  have refused: "\<exists>s'. captureFullPage page_unanswered default_options idle_state
          = Some (Inl (Message ''Unknown action''), s')
        \<and> busy_at_await s' = [True, True]
        \<and> isCapturing busy_state \<in> set (drop (length (busy_at_await idle_state)) (busy_at_await s'))"
    by (simp add: unanswered_run idle busy)
  then obtain s' where run: "captureFullPage page_unanswered default_options idle_state
          = Some (Inl (Message ''Unknown action''), s')"
    and member: "isCapturing busy_state \<in> set (drop (length (busy_at_await idle_state)) (busy_at_await s'))"
    by blast
  from already_in_progress_iff_busy
    [of idle_state page_unanswered default_options "Inl (Message ''Unknown action'')" s'
      busy_state page_1000 default_options] idle run member
  have second: "captureFullPage page_1000 default_options busy_state
      = Some (Inl AlreadyInProgress, busy_state)"
    by blast
  from idle page counted admitted refused busy second show ?thesis
    by blast
qed

text \<open>
  C9. The page extent in each axis is the maximum of the five box metrics of that axis.
  The canvas is created with exactly this width and height and keeps them to the end of
  the \<open>try\<close> block, whatever the outcome, and the image that a successful session
  returns encodes a surface of this width and height.
\<close>

theorem full_page_surface_dimensions:
  "pageHeight e = Max {body_scrollHeight e, body_offsetHeight e, docEl_clientHeight e,
                       docEl_scrollHeight e, docEl_offsetHeight e}
   \<and> pageWidth e = Max {body_scrollWidth e, body_offsetWidth e, docEl_clientWidth e,
                        docEl_scrollWidth e, docEl_offsetWidth e}
   \<and> (captureFullPage_try e options s = Some (r, s1)
        \<longrightarrow> (\<exists>c. canvas s1 = Some c \<and> width c = pageWidth e \<and> height c = pageHeight e))
   \<and> (captureFullPage e options s = Some (Inr img, s')
        \<longrightarrow> width (surface img) = pageWidth e \<and> height (surface img) = pageHeight e)"
proof -
  have h: "pageHeight e = Max {body_scrollHeight e, body_offsetHeight e, docEl_clientHeight e,
                       docEl_scrollHeight e, docEl_offsetHeight e}"
    by (simp only: pageHeight_def Max_five)
  have w: "pageWidth e = Max {body_scrollWidth e, body_offsetWidth e, docEl_clientWidth e,
                        docEl_scrollWidth e, docEl_offsetWidth e}"
    by (simp only: pageWidth_def Max_five)
  have allocated: "\<exists>c. canvas s1 = Some c \<and> width c = pageWidth e \<and> height c = pageHeight e"
    if "captureFullPage_try e options s = Some (r, s1)"
    using captureFullPage_try_inv [OF that] by blast
  have encoded: "width (surface img) = pageWidth e \<and> height (surface img) = pageHeight e"
    if run: "captureFullPage e options s = Some (Inr img, s')"
  proof -
    from run have idle: "\<not> isCapturing s"
      by (auto simp: captureFullPage_def)
    from idle run obtain s2 where
      "captureFullPage_try e options (s\<lparr>isCapturing := True\<rparr>) = Some (Inr img, s2)"
      by (blast elim: captureFullPage_admitted)
    from captureFullPage_try_inv [OF this] show ?thesis by blast
  qed
  from h w allocated encoded show ?thesis by blast
qed

text \<open>
  The page of 1920 by 3000 in a viewport of 1920 by 1000: three tiles, drawn at
  \<open>(0, 0)\<close>, \<open>(0, 1000)\<close> and \<open>(0, 2000)\<close>, and an image of 1920 by 3000. And the
  page of 1000 by 1000 whose first tile is refused: the canvas at the end of the \<open>try\<close>
  block is 1000 by 1000.
\<close>

theorem full_page_surface_dimensions_witness:
  "(\<exists>img s'. captureFullPage page_1920 default_options idle_state = Some (Inr img, s')
      \<and> width (surface img) = 1920 \<and> height (surface img) = 3000
      \<and> map snd (drawn (surface img)) = [(0, 0), (0, 1000), (0, 2000)]
      \<and> requests s' = 3)
   \<and> pageWidth page_1920 = 1920 \<and> pageHeight page_1920 = 3000
   \<and> (\<exists>r s1. captureFullPage_try page_unanswered default_options (idle_state\<lparr>isCapturing := True\<rparr>)
          = Some (r, s1)
        \<and> (\<exists>c. canvas s1 = Some c \<and> width c = 1000 \<and> height c = 1000))"
proof -
  have dims: "pageWidth page_1920 = 1920" "pageHeight page_1920 = 3000"
    by (simp_all add: pageWidth_def pageHeight_def page_1920_def)
  have dims': "pageWidth page_unanswered = 1000" "pageHeight page_unanswered = 1000"
    by (simp_all add: pageWidth_def pageHeight_def page_unanswered_def page_1000_def)
  from full_page_surface_dimensions [of page_1920 default_options idle_state _ _ _ _] run_1920
  have a: "\<exists>img s'. captureFullPage page_1920 default_options idle_state = Some (Inr img, s')
      \<and> width (surface img) = 1920 \<and> height (surface img) = 3000
      \<and> map snd (drawn (surface img)) = [(0, 0), (0, 1000), (0, 2000)]
      \<and> requests s' = 3"
    by (simp add: dims)
  from full_page_surface_dimensions [of page_unanswered default_options
      "idle_state\<lparr>isCapturing := True\<rparr>" "Inl (Message ''Unknown action'')" _ _ _] unanswered_body
  have b: "\<exists>r s1. captureFullPage_try page_unanswered default_options (idle_state\<lparr>isCapturing := True\<rparr>)
          = Some (r, s1)
        \<and> (\<exists>c. canvas s1 = Some c \<and> width c = 1000 \<and> height c = 1000)"
    by (simp add: dims')
  from a b dims show ?thesis by blast
qed

section \<open>The history store and the coordinator\<close>

lemma onMessage_capture:
  "onMessage e (CaptureMessage m) tab st = map_prod CaptureResponse (\<lambda>x. x) (handleCapture e m tab st)"
  by (simp add: onMessage_def)

lemma onMessage_captureVisibleTab:
  "onMessage e (OtherMessage ''captureVisibleTab'') tab st = (UnknownAction, st)"
  by (simp add: onMessage_def)

lemma splice_50: "(if length ys > n then take n ys else ys) = take n ys"
  by simp

lemma saveScreenshot_ok:
  assumes "storage_get_rejects e = None" and "storage_set_rejects e (take 50 (r # history st)) = None"
  shows "saveScreenshot e r st = (Inr (), st\<lparr>stored_screenshots := Some (take 50 (r # history st))\<rparr>)"
proof -
  have get: "storage_get e st = Inr (history st)"
    using assms(1) by (simp add: storage_get_def history_def)
  have set: "storage_set e (take 50 (r # history st)) st
      = (Inr (), st\<lparr>stored_screenshots := Some (take 50 (r # history st))\<rparr>)"
    using assms(2) by (simp only: storage_set_def option.case)
  show ?thesis
    unfolding saveScreenshot_def Let_def get splice_50 sum.case set by simp
qed

lemma saveScreenshot_get_rejected:
  assumes "storage_get_rejects e = Some cause"
  shows "saveScreenshot e r st =
    (Inl (Error ''Failed to save screenshot to storage''),
     console_error ''Save screenshot error:'' cause st)"
proof -
  have get: "storage_get e st = Inl cause"
    using assms by (simp add: storage_get_def)
  show ?thesis
    unfolding saveScreenshot_def Let_def get by simp
qed

lemma saveScreenshot_set_rejected:
  assumes "storage_get_rejects e = None"
    and "storage_set_rejects e (take 50 (r # history st)) = Some cause"
  shows "saveScreenshot e r st =
    (Inl (Error ''Failed to save screenshot to storage''),
     console_error ''Save screenshot error:'' cause st)"
proof -
  have get: "storage_get e st = Inr (history st)"
    using assms(1) by (simp add: storage_get_def history_def)
  have set: "storage_set e (take 50 (r # history st)) st = (Inl cause, st)"
    using assms(2) by (simp only: storage_set_def option.case)
  show ?thesis
    unfolding saveScreenshot_def Let_def get splice_50 sum.case set by simp
qed

lemma saveScreenshot_cases:
  obtains (rejected) cause where "saveScreenshot e r st =
      (Inl (Error ''Failed to save screenshot to storage''),
       console_error ''Save screenshot error:'' cause st)"
  | (stored) "saveScreenshot e r st =
      (Inr (), st\<lparr>stored_screenshots := Some (take 50 (r # history st))\<rparr>)"
proof (cases "storage_get_rejects e")
  case (Some cause)
  from saveScreenshot_get_rejected [OF this] show ?thesis by (rule rejected)
next
  case None
  show ?thesis
  proof (cases "storage_set_rejects e (take 50 (r # history st))")
    case (Some cause)
    from saveScreenshot_set_rejected [OF None this] show ?thesis by (rule rejected)
  next
    case none: None
    from saveScreenshot_ok [OF None none] show ?thesis by (rule stored)
  qed
qed

lemma handleCapture_not_saved:
  assumes "acquire e m tab = Inr d"
    and "saveScreenshot e (screenshotData e tab d) st = (Inl err, st1)"
  shows "handleCapture e m tab st =
    (\<lparr>success = False, r_dataUrl = None, r_filename = None, r_error = Some (message_of err)\<rparr>,
     console_error ''Capture error:'' err st1)"
  by (simp add: handleCapture_def Let_def assms)

lemma handleCapture_not_downloaded:
  assumes "acquire e m tab = Inr d"
    and "saveScreenshot e (screenshotData e tab d) st = (Inr (), st1)"
    and "downloadScreenshot e d (make_filename e (now e)) st1 = (Inl err, st2)"
  shows "handleCapture e m tab st =
    (\<lparr>success = False, r_dataUrl = None, r_filename = None, r_error = Some (message_of err)\<rparr>,
     console_error ''Capture error:'' err st2)"
  by (simp add: handleCapture_def Let_def assms)

lemma handleCapture_done:
  assumes "acquire e m tab = Inr d"
    and "saveScreenshot e (screenshotData e tab d) st = (Inr (), st1)"
    and "downloadScreenshot e d (make_filename e (now e)) st1 = (Inr (), st2)"
  shows "handleCapture e m tab st =
    (\<lparr>success = True, r_dataUrl = Some d, r_filename = Some (make_filename e (now e)),
      r_error = None\<rparr>, st2)"
  by (simp add: handleCapture_def Let_def assms)

lemma deleteScreenshot_get_rejected:
  assumes "storage_get_rejects e = Some cause"
  shows "deleteScreenshot e i st =
    (\<lparr>d_success = False, d_error = Some (message_of cause)\<rparr>,
     console_error ''Delete screenshot error:'' cause st)"
proof -
  have get: "storage_get e st = Inl cause"
    using assms by (simp add: storage_get_def)
  show ?thesis by (simp add: deleteScreenshot_def Let_def get)
qed

lemma deleteScreenshot_set_rejected:
  assumes "storage_get_rejects e = None"
    and "storage_set_rejects e (filter (\<lambda>r. id' r \<noteq> i) (history st)) = Some cause"
  shows "deleteScreenshot e i st =
    (\<lparr>d_success = False, d_error = Some (message_of cause)\<rparr>,
     console_error ''Delete screenshot error:'' cause st)"
proof -
  have get: "storage_get e st = Inr (history st)"
    using assms(1) by (simp add: storage_get_def history_def)
  have set: "storage_set e (filter (\<lambda>r. id' r \<noteq> i) (history st)) st = (Inl cause, st)"
    using assms(2) by (simp only: storage_set_def option.case)
  show ?thesis by (simp add: deleteScreenshot_def Let_def get set)
qed

lemma deleteScreenshot_ok:
  assumes "storage_get_rejects e = None"
    and "storage_set_rejects e (filter (\<lambda>r. id' r \<noteq> i) (history st)) = None"
  shows "deleteScreenshot e i st =
    (\<lparr>d_success = True, d_error = None\<rparr>,
     st\<lparr>stored_screenshots := Some (filter (\<lambda>r. id' r \<noteq> i) (history st))\<rparr>)"
proof -
  have get: "storage_get e st = Inr (history st)"
    using assms(1) by (simp add: storage_get_def history_def)
  have set: "storage_set e (filter (\<lambda>r. id' r \<noteq> i) (history st)) st
      = (Inr (), st\<lparr>stored_screenshots := Some (filter (\<lambda>r. id' r \<noteq> i) (history st))\<rparr>)"
    using assms(2) by (simp only: storage_set_def option.case)
  show ?thesis by (simp add: deleteScreenshot_def Let_def get set)
qed

lemma deleteScreenshot_cases:
  obtains (rejected) cause where "deleteScreenshot e i st =
      (\<lparr>d_success = False, d_error = Some (message_of cause)\<rparr>,
       console_error ''Delete screenshot error:'' cause st)"
  | (stored) "storage_get_rejects e = None"
      "storage_set_rejects e (filter (\<lambda>r. id' r \<noteq> i) (history st)) = None"
      "deleteScreenshot e i st =
      (\<lparr>d_success = True, d_error = None\<rparr>,
       st\<lparr>stored_screenshots := Some (filter (\<lambda>r. id' r \<noteq> i) (history st))\<rparr>)"
proof (cases "storage_get_rejects e")
  case (Some cause)
  from deleteScreenshot_get_rejected [OF this] show ?thesis by (rule rejected)
next
  case None
  show ?thesis
  proof (cases "storage_set_rejects e (filter (\<lambda>r. id' r \<noteq> i) (history st))")
    case (Some cause)
    from deleteScreenshot_set_rejected [OF None this] show ?thesis by (rule rejected)
  next
    case none: None
    from None none deleteScreenshot_ok [OF None none] show ?thesis by (rule stored)
  qed
qed

lemma acquire_visible_ok: "acquire storage_full Visible (Some tab_1) = Inr ''data:image/png;base64,AAAA''"
  by (simp add: acquire_def storage_full_def bg_ok_def tab_1_def)

lemma acquire_full_ok: "acquire download_blocked Full (Some tab_1) = Inr ''data:image/png;base64,BBBB''"
  by (simp add: acquire_def download_blocked_def bg_ok_def tab_1_def)

lemma storage_full_rejects:
  "saveScreenshot storage_full r empty_store =
     (Inl (Error ''Failed to save screenshot to storage''),
      console_error ''Save screenshot error:'' (Error ''QUOTA_BYTES quota exceeded'') empty_store)"
  by (rule saveScreenshot_set_rejected) (simp_all add: storage_full_def bg_ok_def)

lemma download_blocked_stores:
  "saveScreenshot download_blocked r empty_store =
     (Inr (), empty_store\<lparr>stored_screenshots := Some (take 50 (r # history empty_store))\<rparr>)"
  by (rule saveScreenshot_ok) (simp_all add: download_blocked_def bg_ok_def)

lemma download_blocked_rejects:
  "download_rejects download_blocked u n = Some (Error ''Download canceled'')"
  by (simp add: download_blocked_def)

lemma ids_with_duplicates:
  "map id' (history store_with_duplicates) =
     [''screenshot_3'', ''screenshot_2'', ''screenshot_3'', ''screenshot_1'', ''screenshot_3'']"
  by code_simp

section \<open>Claims about the history store and the coordinator\<close>

text \<open>
  C1, amended. When the storage read and write succeed, \<open>saveScreenshot\<close> stores the
  record in front of the sequence and cuts the sequence from its tail to 50 entries, the
  constant of line 137: the sequence afterwards has at most 50 entries, exactly 50 when
  it had 50 or more, and the inserted record is first. The \<open>maxHistory\<close> that the
  options page keeps under \<open>settings\<close> is neither read nor changed.
\<close>

theorem insert_prepends_and_caps_at_50:
  assumes "storage_get_rejects e = None"
    and "storage_set_rejects e (take 50 (r # history st)) = None"
  shows "fst (saveScreenshot e r st) = Inr ()
    \<and> history (snd (saveScreenshot e r st)) = take 50 (r # history st)
    \<and> length (history (snd (saveScreenshot e r st))) \<le> 50
    \<and> hd (history (snd (saveScreenshot e r st))) = r
    \<and> (length (history st) < 50 \<longrightarrow> history (snd (saveScreenshot e r st)) = r # history st)
    \<and> (50 \<le> length (history st) \<longrightarrow> length (history (snd (saveScreenshot e r st))) = 50)
    \<and> configured_maxHistory (snd (saveScreenshot e r st)) = configured_maxHistory st"
proof -
  have stored: "history (snd (saveScreenshot e r st)) = take 50 (r # history st)"
    by (simp only: saveScreenshot_ok [OF assms] snd_conv) (simp add: history_def)
  have "fst (saveScreenshot e r st) = Inr ()"
    by (simp only: saveScreenshot_ok [OF assms] fst_conv)
  moreover have "length (take 50 (r # history st)) \<le> 50" by simp
  moreover have "hd (take 50 (r # history st)) = r" by simp
  moreover have "length (history st) < 50 \<longrightarrow> take 50 (r # history st) = r # history st"
    by simp
  moreover have "50 \<le> length (history st) \<longrightarrow> length (take 50 (r # history st)) = 50"
    by simp
  moreover have "configured_maxHistory (snd (saveScreenshot e r st)) = configured_maxHistory st"
    by (simp only: saveScreenshot_ok [OF assms] snd_conv) (simp add: configured_maxHistory_def)
  ultimately show ?thesis by (simp only: stored)
qed

theorem insert_prepends_and_caps_at_50_witness:
  "storage_get_rejects bg_ok = None
   \<and> storage_set_rejects bg_ok (take 50 (old_record 50 # history store_of_fifty)) = None
   \<and> length (history store_of_fifty) = 50
   \<and> fst (saveScreenshot bg_ok (old_record 50) store_of_fifty) = Inr ()
   \<and> length (history (snd (saveScreenshot bg_ok (old_record 50) store_of_fifty))) = 50
   \<and> hd (history (snd (saveScreenshot bg_ok (old_record 50) store_of_fifty))) = old_record 50
   \<and> storage_set_rejects bg_ok (take 50 (old_record 10 # history store_of_ten)) = None
   \<and> length (history store_of_ten) < 50
   \<and> history (snd (saveScreenshot bg_ok (old_record 10) store_of_ten))
       = old_record 10 # history store_of_ten"
proof -
  have get: "storage_get_rejects bg_ok = None" by (simp add: bg_ok_def)
  have set: "storage_set_rejects bg_ok (take 50 (old_record 50 # history store_of_fifty)) = None"
    by (simp add: bg_ok_def)
  have len: "length (history store_of_fifty) = 50"
    by (simp add: history_def store_of_fifty_def)
  have set': "storage_set_rejects bg_ok (take 50 (old_record 10 # history store_of_ten)) = None"
    by (simp add: bg_ok_def)
  have len': "length (history store_of_ten) < 50"
    by (simp add: history_def store_of_ten_def)
  from insert_prepends_and_caps_at_50 [OF get set] get set len
  have a: "fst (saveScreenshot bg_ok (old_record 50) store_of_fifty) = Inr ()
   \<and> length (history (snd (saveScreenshot bg_ok (old_record 50) store_of_fifty))) = 50
   \<and> hd (history (snd (saveScreenshot bg_ok (old_record 50) store_of_fifty))) = old_record 50"
    by simp
  from insert_prepends_and_caps_at_50 [OF get set'] len'
  have b: "history (snd (saveScreenshot bg_ok (old_record 10) store_of_ten))
       = old_record 10 # history store_of_ten"
    by blast
  from a b get set len set' len' show ?thesis by blast
qed

text \<open>
  The claim as stated fails for a configured \<open>maxHistory\<close> below 50: with 10 configured
  and 10 records stored, the sequence after the insert has 11.
\<close>

theorem insert_ignores_configured_cap_counterexample:
  "fst (saveScreenshot bg_ok (old_record 10) store_of_ten) = Inr ()
   \<and> configured_maxHistory (snd (saveScreenshot bg_ok (old_record 10) store_of_ten)) = 10
   \<and> length (history (snd (saveScreenshot bg_ok (old_record 10) store_of_ten))) = 11"
proof -
  have get: "storage_get_rejects bg_ok = None" by (simp add: bg_ok_def)
  have set: "storage_set_rejects bg_ok (take 50 (old_record 10 # history store_of_ten)) = None"
    by (simp add: bg_ok_def)
  have len: "length (history store_of_ten) = 10"
    by (simp add: history_def store_of_ten_def)
  have cap: "configured_maxHistory store_of_ten = 10"
    by (simp add: configured_maxHistory_def store_of_ten_def)
  show ?thesis
    unfolding saveScreenshot_ok [OF get set] fst_conv snd_conv
    using len cap by (simp add: history_def configured_maxHistory_def store_of_ten_def)
qed

text \<open>
  C6, amended. When the image has been acquired and the insert into the history fails,
  \<open>saveScreenshot\<close> logs the cause and throws again, and \<open>handleCapture\<close> catches that:
  the response is a failure with the message \<open>Failed to save screenshot to storage\<close>
  and carries neither image nor file name, both errors are on the console, no download
  is started and the stored history is as before.
\<close>

theorem insert_failure_fails_capture:
  assumes "acquire e m tab = Inr d"
    and "fst (saveScreenshot e (screenshotData e tab d) st) \<noteq> Inr ()"
  shows "fst (handleCapture e m tab st) =
      \<lparr>success = False, r_dataUrl = None, r_filename = None,
       r_error = Some ''Failed to save screenshot to storage''\<rparr>
    \<and> (\<exists>cause. console (snd (handleCapture e m tab st)) = console st @
          [ConsoleError ''Save screenshot error:'' cause,
           ConsoleError ''Capture error:'' (Error ''Failed to save screenshot to storage'')])
    \<and> downloads (snd (handleCapture e m tab st)) = downloads st
    \<and> history (snd (handleCapture e m tab st)) = history st"
proof (cases e "screenshotData e tab d" st rule: saveScreenshot_cases)
  case (rejected cause)
  note run = handleCapture_not_saved [OF assms(1) rejected]
  have "console (snd (handleCapture e m tab st)) = console st @
          [ConsoleError ''Save screenshot error:'' cause,
           ConsoleError ''Capture error:'' (Error ''Failed to save screenshot to storage'')]"
    by (simp add: run console_error_def)
  then show ?thesis
    by (simp add: run console_error_def history_def)
next
  case stored
  with assms(2) show ?thesis by simp
qed

theorem insert_failure_fails_capture_witness:
  "acquire storage_full Visible (Some tab_1) = Inr ''data:image/png;base64,AAAA''
   \<and> fst (saveScreenshot storage_full
         (screenshotData storage_full (Some tab_1) ''data:image/png;base64,AAAA'') empty_store) \<noteq> Inr ()
   \<and> fst (handleCapture storage_full Visible (Some tab_1) empty_store) =
       \<lparr>success = False, r_dataUrl = None, r_filename = None,
        r_error = Some ''Failed to save screenshot to storage''\<rparr>
   \<and> downloads (snd (handleCapture storage_full Visible (Some tab_1) empty_store)) = []
   \<and> history (snd (handleCapture storage_full Visible (Some tab_1) empty_store)) = []"
proof -
  have fails: "fst (saveScreenshot storage_full
         (screenshotData storage_full (Some tab_1) ''data:image/png;base64,AAAA'') empty_store) \<noteq> Inr ()"
    by (simp add: storage_full_rejects)
  from insert_failure_fails_capture [OF acquire_visible_ok fails] acquire_visible_ok fails
  show ?thesis
    by (simp add: empty_store_def history_def)
qed

text \<open>
  The claim as stated fails: a visible capture whose image was acquired and whose
  storage write is rejected is answered with \<open>success: false\<close> and no image.
\<close>

theorem insert_failure_fails_capture_counterexample:
  "acquire storage_full Visible (Some tab_1) = Inr ''data:image/png;base64,AAAA''
   \<and> fst (saveScreenshot storage_full
         (screenshotData storage_full (Some tab_1) ''data:image/png;base64,AAAA'') empty_store)
       = Inl (Error ''Failed to save screenshot to storage'')
   \<and> success (fst (handleCapture storage_full Visible (Some tab_1) empty_store)) = False
   \<and> r_dataUrl (fst (handleCapture storage_full Visible (Some tab_1) empty_store)) = None"
  by (simp add: acquire_visible_ok storage_full_rejects
      handleCapture_not_saved [OF acquire_visible_ok storage_full_rejects])

text \<open>
  C7, amended. When the image has been acquired and stored and the download is
  rejected, \<open>downloadScreenshot\<close> logs the cause and throws again, and \<open>handleCapture\<close>
  catches that: the response is a failure with the message \<open>Failed to download
  screenshot\<close>, both errors are on the console, and the record stays in the history.
\<close>

theorem download_failure_fails_capture:
  assumes "acquire e m tab = Inr d"
    and "fst (saveScreenshot e (screenshotData e tab d) st) = Inr ()"
    and "download_rejects e d (make_filename e (now e)) = Some cause"
  shows "fst (handleCapture e m tab st) =
      \<lparr>success = False, r_dataUrl = None, r_filename = None,
       r_error = Some ''Failed to download screenshot''\<rparr>
    \<and> console (snd (handleCapture e m tab st)) = console st @
          [ConsoleError ''Download error:'' cause,
           ConsoleError ''Capture error:'' (Error ''Failed to download screenshot'')]
    \<and> downloads (snd (handleCapture e m tab st)) = downloads st
    \<and> history (snd (handleCapture e m tab st)) = take 50 (screenshotData e tab d # history st)"
proof (cases e "screenshotData e tab d" st rule: saveScreenshot_cases)
  case (rejected c)
  with assms(2) show ?thesis by simp
next
  case stored
  let ?st1 = "st\<lparr>stored_screenshots := Some (take 50 (screenshotData e tab d # history st))\<rparr>"
  have dl: "downloadScreenshot e d (make_filename e (now e)) ?st1 =
      (Inl (Error ''Failed to download screenshot''), console_error ''Download error:'' cause ?st1)"
    using assms(3) by (simp only: downloadScreenshot_def option.case)
  note run = handleCapture_not_downloaded [OF assms(1) stored dl]
  show ?thesis
    by (simp add: run console_error_def history_def)
qed

theorem download_failure_fails_capture_witness:
  "acquire download_blocked Full (Some tab_1) = Inr ''data:image/png;base64,BBBB''
   \<and> fst (saveScreenshot download_blocked
         (screenshotData download_blocked (Some tab_1) ''data:image/png;base64,BBBB'') empty_store) = Inr ()
   \<and> download_rejects download_blocked ''data:image/png;base64,BBBB''
        (make_filename download_blocked (now download_blocked)) = Some (Error ''Download canceled'')
   \<and> fst (handleCapture download_blocked Full (Some tab_1) empty_store) =
       \<lparr>success = False, r_dataUrl = None, r_filename = None,
        r_error = Some ''Failed to download screenshot''\<rparr>
   \<and> history (snd (handleCapture download_blocked Full (Some tab_1) empty_store)) =
       [screenshotData download_blocked (Some tab_1) ''data:image/png;base64,BBBB'']"
proof -
  have stored: "fst (saveScreenshot download_blocked
         (screenshotData download_blocked (Some tab_1) ''data:image/png;base64,BBBB'') empty_store) = Inr ()"
    by (simp add: download_blocked_stores)
  from download_failure_fails_capture [OF acquire_full_ok stored download_blocked_rejects]
    acquire_full_ok stored download_blocked_rejects
  show ?thesis
    by (simp add: empty_store_def history_def)
qed

text \<open>
  The claim as stated fails: a full-page capture whose image was acquired and whose
  download is rejected is answered with \<open>success: false\<close>.
\<close>

theorem download_failure_fails_capture_counterexample:
  "acquire download_blocked Full (Some tab_1) = Inr ''data:image/png;base64,BBBB''
   \<and> download_rejects download_blocked ''data:image/png;base64,BBBB''
        (make_filename download_blocked (now download_blocked)) = Some (Error ''Download canceled'')
   \<and> success (fst (handleCapture download_blocked Full (Some tab_1) empty_store)) = False
   \<and> r_error (fst (handleCapture download_blocked Full (Some tab_1) empty_store))
       = Some ''Failed to download screenshot''"
proof -
  let ?st1 = "empty_store\<lparr>stored_screenshots := Some (take 50
      (screenshotData download_blocked (Some tab_1) ''data:image/png;base64,BBBB'' # history empty_store))\<rparr>"
  have dl: "downloadScreenshot download_blocked ''data:image/png;base64,BBBB''
      (make_filename download_blocked (now download_blocked)) ?st1 =
      (Inl (Error ''Failed to download screenshot''),
       console_error ''Download error:'' (Error ''Download canceled'') ?st1)"
    by (simp only: downloadScreenshot_def download_blocked_rejects option.case)
  show ?thesis
    by (simp add: acquire_full_ok download_blocked_rejects
        handleCapture_not_downloaded [OF acquire_full_ok download_blocked_stores dl])
qed

text \<open>
  C8. When no stored record has the given id, the stored sequence after
  \<open>deleteScreenshot\<close> is the stored sequence before it, whether the storage works or
  not, and the response is a success when the storage read and write succeed.
\<close>

theorem delete_absent_id_is_noop:
  assumes "i \<notin> id' ` set (history st)"
  shows "history (snd (deleteScreenshot e i st)) = history st
    \<and> (storage_get_rejects e = None \<and> storage_set_rejects e (history st) = None
        \<longrightarrow> fst (deleteScreenshot e i st) = \<lparr>d_success = True, d_error = None\<rparr>)"
proof -
  from assms have same: "filter (\<lambda>r. id' r \<noteq> i) (history st) = history st"
    by (auto simp: filter_id_conv)
  show ?thesis
  proof (cases e i st rule: deleteScreenshot_cases)
    case (rejected cause)
    have "storage_get_rejects e \<noteq> None \<or> storage_set_rejects e (history st) \<noteq> None"
    proof (rule ccontr)
      assume "\<not> ?thesis"
      then have "storage_get_rejects e = None" "storage_set_rejects e (history st) = None"
        by simp_all
      from deleteScreenshot_ok [OF this(1), of i st] this(2) rejected show False
        by (simp add: same)
    qed
    then show ?thesis
      by (auto simp: rejected console_error_def history_def)
  next
    case stored
    have "history (snd (deleteScreenshot e i st)) = filter (\<lambda>r. id' r \<noteq> i) (history st)"
      by (simp only: stored(3) snd_conv) (simp add: history_def)
    with stored(3) show ?thesis
      by (simp add: same)
  qed
qed

theorem delete_absent_id_is_noop_witness:
  "''screenshot_9'' \<notin> id' ` set (history store_with_duplicates)
   \<and> storage_get_rejects bg_ok = None
   \<and> storage_set_rejects bg_ok (history store_with_duplicates) = None
   \<and> history (snd (deleteScreenshot bg_ok ''screenshot_9'' store_with_duplicates))
       = history store_with_duplicates
   \<and> fst (deleteScreenshot bg_ok ''screenshot_9'' store_with_duplicates)
       = \<lparr>d_success = True, d_error = None\<rparr>"
proof -
  have "set (map id' (history store_with_duplicates)) =
      {''screenshot_3'', ''screenshot_2'', ''screenshot_1''}"
    unfolding ids_with_duplicates by auto
  then have absent: "''screenshot_9'' \<notin> id' ` set (history store_with_duplicates)"
    by simp
  have ok: "storage_get_rejects bg_ok = None" "storage_set_rejects bg_ok (history store_with_duplicates) = None"
    by (simp_all add: bg_ok_def)
  from delete_absent_id_is_noop [OF absent, of bg_ok] absent ok show ?thesis by simp
qed

text \<open>
  C10. When the storage read and write succeed, \<open>deleteScreenshot\<close> answers with a
  success and the stored sequence afterwards is the sequence before it without the
  records of the given id, all of them, the others in their order.
\<close>

theorem delete_removes_every_match:
  assumes "storage_get_rejects e = None"
    and "storage_set_rejects e (filter (\<lambda>r. id' r \<noteq> i) (history st)) = None"
  shows "fst (deleteScreenshot e i st) = \<lparr>d_success = True, d_error = None\<rparr>
    \<and> history (snd (deleteScreenshot e i st)) = filter (\<lambda>r. id' r \<noteq> i) (history st)
    \<and> i \<notin> id' ` set (history (snd (deleteScreenshot e i st)))"
proof -
  note run = deleteScreenshot_ok [OF assms]
  have "history (snd (deleteScreenshot e i st)) = filter (\<lambda>r. id' r \<noteq> i) (history st)"
    by (simp add: run history_def)
  then show ?thesis by (auto simp: run)
qed

theorem delete_removes_every_match_witness:
  "storage_get_rejects bg_ok = None
   \<and> storage_set_rejects bg_ok
        (filter (\<lambda>r. id' r \<noteq> ''screenshot_3'') (history store_with_duplicates)) = None
   \<and> history store_with_duplicates
       = [old_record 3, old_record 2, old_record 3, old_record 1, old_record 3]
   \<and> fst (deleteScreenshot bg_ok ''screenshot_3'' store_with_duplicates)
       = \<lparr>d_success = True, d_error = None\<rparr>
   \<and> history (snd (deleteScreenshot bg_ok ''screenshot_3'' store_with_duplicates))
       = [old_record 2, old_record 1]"
proof -
  have ok: "storage_get_rejects bg_ok = None"
    "storage_set_rejects bg_ok
        (filter (\<lambda>r. id' r \<noteq> ''screenshot_3'') (history store_with_duplicates)) = None"
    by (simp_all add: bg_ok_def)
  have before: "history store_with_duplicates
       = [old_record 3, old_record 2, old_record 3, old_record 1, old_record 3]"
    by (simp add: history_def store_with_duplicates_def)
  have kept: "filter (\<lambda>r. id' r \<noteq> ''screenshot_3'') (history store_with_duplicates)
       = [old_record 2, old_record 1]"
    by code_simp
  from delete_removes_every_match [OF ok] ok before kept show ?thesis by simp
qed

end
